theory Spec2Isabelle
  imports Complex_Main "HOL-Library.AList"
begin

section \<open>stestr: the run command and the isolation analysis\<close>

text \<open>
  A shallow embedding of \<^verbatim>\<open>stestr/commands/run.py\<close>. Test ids and tags are
  strings. A Python dict is an association list in insertion order
  (\<open>AList.update\<close> replaces the value of a key that is present and appends a
  new key at the end, as a dict does); a raise is a value \<open>Inl e\<close>.
\<close>

type_synonym test_id = string

datatype error = KeyError | ValueError | IndexError | TypeError | Raised string

subsection \<open>The decoded event stream\<close>

text \<open>
  \<^verbatim>\<open>testtools.StreamToDict\<close> hands one dict per test to its callback, in the
  order the events arrived. \<open>td_tags\<close> lists the tag set of the dict in the
  order a \<^verbatim>\<open>for tag in tags\<close> visits it.
\<close>

record test_dict =
  td_id :: test_id
  td_status :: string
  td_tags :: "string list"

text \<open>\<^verbatim>\<open>_find_failing\<close> (lines 106-121): the ids of the dicts whose status is fail.\<close>

definition find_failing :: "test_dict list \<Rightarrow> test_id list" where
  "find_failing failing_stream =
     map td_id (filter (\<lambda>d. td_status d = ''fail'') failing_stream)"

subsection \<open>\<^verbatim>\<open>_prior_tests\<close> (lines 411-451)\<close>

text \<open>A worker is a \<^verbatim>\<open>worker-N\<close> tag, or Python's \<^verbatim>\<open>None\<close> when a dict has no such tag.\<close>

type_synonym worker = "string option"

record history =
  worker_to_test :: "(worker \<times> test_id list) list"
  test_to_worker :: "(test_id \<times> worker list) list"

definition startswith :: "string \<Rightarrow> string \<Rightarrow> bool" where
  "startswith s p = (take (length p) s = p)"

text \<open>\<^verbatim>\<open>d.setdefault(k, [])\<close> followed by \<^verbatim>\<open>.append\<close> or \<^verbatim>\<open>.extend\<close>.\<close>

definition setdefault_extend :: "'k \<Rightarrow> 'v list \<Rightarrow> ('k \<times> 'v list) list \<Rightarrow> ('k \<times> 'v list) list" where
  "setdefault_extend k vs d =
     AList.update k ((case map_of d k of None \<Rightarrow> [] | Some l \<Rightarrow> l) @ vs) d"

text \<open>Lines 426-433: the workers of one dict.\<close>

definition dict_workers :: "test_dict \<Rightarrow> worker list" where
  "dict_workers test_dict =
     (let workers = filter (\<lambda>tag. startswith tag ''worker-'') (td_tags test_dict)
      in if workers = [] then [None] else map Some workers)"

text \<open>Lines 425-436: the callback \<^verbatim>\<open>map_test\<close>, on the two dicts it closes over.\<close>

definition map_test :: "test_dict \<Rightarrow> history \<Rightarrow> history" where
  "map_test test_dict h =
     (let workers = dict_workers test_dict
      in \<lparr> worker_to_test =
             fold (\<lambda>worker d. setdefault_extend worker [td_id test_dict] d) workers
               (worker_to_test h),
           test_to_worker =
             setdefault_extend (td_id test_dict) workers (test_to_worker h) \<rparr>)"

text \<open>Lines 417-443: the two dicts after the whole stream has been decoded.\<close>

definition build_history :: "test_dict list \<Rightarrow> history" where
  "build_history run = fold map_test run \<lparr> worker_to_test = [], test_to_worker = [] \<rparr>"

text \<open>\<^verbatim>\<open>list.index\<close>: the first position of a value, or ValueError.\<close>

fun list_index :: "'a list \<Rightarrow> 'a \<Rightarrow> nat option" where
  "list_index [] v = None"
| "list_index (x # xs) v =
     (if x = v then Some 0 else map_option Suc (list_index xs v))"

text \<open>Lines 447-451: the loop over the failing id's workers.\<close>

fun extend_prior :: "history \<Rightarrow> test_id \<Rightarrow> worker list \<Rightarrow> test_id list \<Rightarrow> error + test_id list" where
  "extend_prior h failing_id [] prior_tests = Inr prior_tests"
| "extend_prior h failing_id (worker # rest) prior_tests =
     (case map_of (worker_to_test h) worker of
        None \<Rightarrow> Inl KeyError
      | Some worker_tests \<Rightarrow>
          (case list_index worker_tests failing_id of
             None \<Rightarrow> Inl ValueError
           | Some i \<Rightarrow> extend_prior h failing_id rest (prior_tests @ take i worker_tests)))"

text \<open>
  The analyzer object carries the memo: \<open>None\<close> while it has no attribute
  \<^verbatim>\<open>_worker_to_test\<close>. Line 416 rebuilds the dicts when the attribute is absent
  or falsy, that is, an empty dict. The function returns its result together
  with the analyzer afterwards.
\<close>

definition memo_history :: "history option \<Rightarrow> test_dict list \<Rightarrow> history" where
  "memo_history self run =
     (case self of
        None \<Rightarrow> build_history run
      | Some h \<Rightarrow> if worker_to_test h = [] then build_history run else h)"

definition prior_tests :: "history option \<Rightarrow> test_dict list \<Rightarrow> test_id \<Rightarrow>
    (error + test_id list) \<times> history option" where
  "prior_tests self run failing_id =
     (let h = memo_history self run
      in (case map_of (test_to_worker h) failing_id of
            None \<Rightarrow> Inl KeyError
          | Some failing_workers \<Rightarrow> extend_prior h failing_id failing_workers [],
          Some h))"

text \<open>
  The WorkerHistory in the words of the data model: the ids a worker recorded,
  in arrival order, and the workers an id was associated with, one entry for
  each association.
\<close>

definition worker_seq :: "worker \<Rightarrow> test_dict list \<Rightarrow> test_id list" where
  "worker_seq w run =
     concat (map (\<lambda>d. map (\<lambda>_. td_id d) (filter (\<lambda>x. x = w) (dict_workers d))) run)"

definition id_workers :: "test_id \<Rightarrow> test_dict list \<Rightarrow> worker list" where
  "id_workers t run = concat (map (\<lambda>d. if td_id d = t then dict_workers d else []) run)"

definition lookup_list :: "('k \<times> 'v list) list \<Rightarrow> 'k \<Rightarrow> 'v list" where
  "lookup_list d k = (case map_of d k of None \<Rightarrow> [] | Some l \<Rightarrow> l)"

text \<open>
  The result in the words of the specification, for a list of workers: the
  concatenation, over these workers, of each worker's recorded sequence
  strictly before the first occurrence of the id on it.
\<close>

definition spec_prior_over_workers :: "worker list \<Rightarrow> test_dict list \<Rightarrow> test_id \<Rightarrow> test_id list" where
  "spec_prior_over_workers ws run t =
     concat (map (\<lambda>w. takeWhile (\<lambda>x. x \<noteq> t) (worker_seq w run)) ws)"

subsection \<open>The ad-hoc test id (lines 207-212)\<close>

text \<open>
  \<^verbatim>\<open>str.find\<close> and \<^verbatim>\<open>str.rfind\<close> for a one-character needle: the first and the
  last position, or -1.
\<close>

fun py_find :: "string \<Rightarrow> char \<Rightarrow> int" where
  "py_find [] c = - 1"
| "py_find (x # xs) c =
     (if x = c then 0 else (let r = py_find xs c in if r = - 1 then - 1 else r + 1))"

definition py_rfind :: "string \<Rightarrow> char \<Rightarrow> int" where
  "py_rfind s c =
     (let r = py_find (rev s) c in if r = - 1 then - 1 else int (length s) - 1 - r)"

text \<open>
  A slice \<^verbatim>\<open>xs[i:j]\<close>: a negative bound counts from the end, and both bounds
  are clipped to the list.
\<close>

definition slice_bound :: "nat \<Rightarrow> int \<Rightarrow> nat" where
  "slice_bound n i = (if i < 0 then nat (max 0 (int n + i)) else min n (nat i))"

definition py_slice :: "'a list \<Rightarrow> int \<Rightarrow> int \<Rightarrow> 'a list" where
  "py_slice xs i j =
     (let a = slice_bound (length xs) i; b = slice_bound (length xs) j
      in take (b - a) (drop a xs))"

text \<open>
  \<^verbatim>\<open>os.path.splitext\<close> of the Python standard library, as
  \<^verbatim>\<open>genericpath._splitext\<close> computes it on a POSIX system (separator \<^verbatim>\<open>/\<close>, the
  one line 209 looks for): the extension
  starts at the last dot, when that dot lies after the last separator and some
  character between the separator and the dot is not a dot. The function below
  is its \<^verbatim>\<open>while filenameIndex < dotIndex\<close> loop; \<open>None\<close> is the fall through
  to \<^verbatim>\<open>return p, p[:0]\<close>.
\<close>

function skip_leading_dots :: "string \<Rightarrow> int \<Rightarrow> int \<Rightarrow> (string \<times> string) option" where
  "skip_leading_dots p filenameIndex dotIndex =
     (if filenameIndex < dotIndex
      then (if py_slice p filenameIndex (filenameIndex + 1) \<noteq> ''.''
            then Some (py_slice p 0 dotIndex, py_slice p dotIndex (int (length p)))
            else skip_leading_dots p (filenameIndex + 1) dotIndex)
      else None)"
  by pat_completeness auto
termination
  by (relation "measure (\<lambda>(p, f, d). nat (d - f))") auto

declare skip_leading_dots.simps [simp del]

definition splitext :: "string \<Rightarrow> string \<times> string" where
  "splitext p =
     (let sepIndex = py_rfind p CHR ''/'';
          dotIndex = py_rfind p CHR ''.''
      in if dotIndex > sepIndex
         then (case skip_leading_dots p (sepIndex + 1) dotIndex of
                 Some r \<Rightarrow> r
               | None \<Rightarrow> (p, []))
         else (p, []))"

text \<open>\<^verbatim>\<open>str.replace\<close> for a one-character pattern and replacement.\<close>

definition py_replace :: "char \<Rightarrow> char \<Rightarrow> string \<Rightarrow> string" where
  "py_replace old new s = map (\<lambda>c. if c = old then new else c) s"

text \<open>Lines 208-212: the id and the command line the worker is started with.\<close>

definition no_discover_ids :: "string \<Rightarrow> string" where
  "no_discover_ids no_discover =
     (let ids = no_discover
      in if py_find ids CHR ''/'' \<noteq> - 1
         then (let (root, _) = splitext ids in py_replace CHR ''/'' CHR ''.'' root)
         else ids)"

definition run_cmd :: "string \<Rightarrow> string" where
  "run_cmd no_discover = ''python -m subunit.run '' @ no_discover_ids no_discover"

text \<open>
  The transform in the words of the specification. The last segment of a path
  is what follows its last separator; the final extension is the part of the
  last segment from its last dot on, and a segment has one when a character
  other than a dot stands before that dot.
\<close>

definition last_segment :: "string \<Rightarrow> string" where
  "last_segment p = rev (takeWhile (\<lambda>c. c \<noteq> CHR ''/'') (rev p))"

definition dir_part :: "string \<Rightarrow> string" where
  "dir_part p = rev (dropWhile (\<lambda>c. c \<noteq> CHR ''/'') (rev p))"

definition segment_stem :: "string \<Rightarrow> string" where
  "segment_stem seg = butlast (rev (dropWhile (\<lambda>c. c \<noteq> CHR ''.'') (rev seg)))"

definition has_extension :: "string \<Rightarrow> bool" where
  "has_extension seg = (CHR ''.'' \<in> set seg \<and> (\<exists>c \<in> set (segment_stem seg). c \<noteq> CHR ''.''))"

definition spec_strip_extension :: "string \<Rightarrow> string" where
  "spec_strip_extension p =
     (if has_extension (last_segment p) then dir_part p @ segment_stem (last_segment p) else p)"

subsection \<open>The collaborators of a run\<close>

text \<open>
  The worker command, the stream loader and the repository are outside this
  module. They are the fields of a record of functions on an arbitrary world
  \<open>'w\<close>; a call that can raise returns \<open>Inl e\<close>. A worker command is
  identified by the ids \<^verbatim>\<open>conf.get_run_command\<close> was given (\<open>None\<close> for no
  restriction); the other arguments of that call are the same throughout one
  invocation. Next to the world the state keeps the list of the calls made,
  each recorded when it is made, whether it returns or raises.
\<close>

type_synonym cmd = "test_id list option"

type_synonym proc = nat

record load_call =
  in_streams :: "proc list"
  partial :: bool
  load_subunit_out :: bool
  run_id :: "string option"

datatype event =
    SetUp cmd
  | ListTests cmd
  | RunTests cmd
  | CleanUp cmd
  | Popen string
  | Load load_call
  | Write string
  | OutputTable "(string \<times> string) list"

record 'w state =
  world :: 'w
  calls :: "event list"

record 'w collaborators =
  cmd_setUp :: "cmd \<Rightarrow> 'w \<Rightarrow> (error + unit) \<times> 'w"
  cmd_list_tests :: "cmd \<Rightarrow> 'w \<Rightarrow> (error + test_id list) \<times> 'w"
  cmd_run_tests :: "cmd \<Rightarrow> 'w \<Rightarrow> (error + proc list) \<times> 'w"
  cmd_cleanUp :: "cmd \<Rightarrow> 'w \<Rightarrow> (error + unit) \<times> 'w"
  popen :: "string \<Rightarrow> 'w \<Rightarrow> proc \<times> 'w"
  load_load :: "load_call \<Rightarrow> 'w \<Rightarrow> (error + int) \<times> 'w"
  latest_run_successful :: "'w \<Rightarrow> error + bool"

text \<open>
  The parameters of \<^verbatim>\<open>_run_tests\<close> that decide its control flow. The repository
  type and url, the output flags and the output file are handed to the loader
  unchanged.
\<close>

record run_opts =
  failing :: bool
  analyze_isolation :: bool
  isolated :: bool
  until_failure :: bool
  subunit_out :: bool
  combine_id :: "string option"

definition record_call :: "event list \<Rightarrow> 'w \<Rightarrow> 'w state \<Rightarrow> 'w state" where
  "record_call evs w s = \<lparr> world = w, calls = calls s @ evs \<rparr>"

subsection \<open>\<^verbatim>\<open>_run_tests\<close> (lines 454-499)\<close>

text \<open>Lines 460-474: the nested function \<^verbatim>\<open>run_tests\<close>.\<close>

definition run_tests_inner :: "'w collaborators \<Rightarrow> cmd \<Rightarrow> run_opts \<Rightarrow> 'w state \<Rightarrow>
    (error + int) \<times> 'w state" where
  "run_tests_inner C cmd opts s =
     (case cmd_run_tests C cmd (world s) of
        (Inl e, w1) \<Rightarrow> (Inl e, record_call [RunTests cmd] w1 s)
      | (Inr run_procs, w1) \<Rightarrow>
          (let partial = (failing opts \<or> analyze_isolation opts \<or> isolated opts)
           in if run_procs = []
              then (Inr 1,
                    record_call [RunTests cmd,
                                 Write ''The specified regex doesn't match with anything''] w1 s)
              else (let call = \<lparr> in_streams = run_procs, partial = partial,
                                  load_subunit_out = subunit_out opts,
                                  run_id = combine_id opts \<rparr>
                    in case load_load C call w1 of
                         (r, w2) \<Rightarrow> (r, record_call [RunTests cmd, Load call] w2 s))))"

text \<open>
  Lines 480-495: one pass of the \<^verbatim>\<open>while True\<close> loop, up to the value of
  \<^verbatim>\<open>result\<close> that line 496 tests.
\<close>

definition until_failure_iteration :: "'w collaborators \<Rightarrow> cmd \<Rightarrow> run_opts \<Rightarrow> 'w state \<Rightarrow>
    (error + int) \<times> 'w state" where
  "until_failure_iteration C cmd opts s =
     (case run_tests_inner C cmd opts s of
        (Inl e, s1) \<Rightarrow> (Inl e, s1)
      | (Inr result, s1) \<Rightarrow>
          if subunit_out opts
          then (case latest_run_successful C (world s1) of
                  Inl e \<Rightarrow> (Inl e, s1)
                | Inr successful \<Rightarrow> (Inr (if \<not> successful then 1 else result), s1))
          else (Inr result, s1))"

text \<open>Lines 479-497: the loop returns nothing while every pass computes 0.\<close>

partial_function (option) until_failure_loop :: "'w collaborators \<Rightarrow> cmd \<Rightarrow> run_opts \<Rightarrow>
    'w state \<Rightarrow> ((error + int) \<times> 'w state) option" where
  "until_failure_loop C cmd opts s =
     (case until_failure_iteration C cmd opts s of
        (Inl e, s1) \<Rightarrow> Some (Inl e, s1)
      | (Inr result, s1) \<Rightarrow>
          if result \<noteq> 0 then Some (Inr result, s1) else until_failure_loop C cmd opts s1)"

text \<open>
  Line 458, and line 274 of isolated mode: the call of \<^verbatim>\<open>cmd.setUp()\<close>. It stands
  before the \<^verbatim>\<open>try\<close>, so when it raises nothing else of the function runs.
\<close>

definition setUp_call :: "'w collaborators \<Rightarrow> cmd \<Rightarrow> 'w state \<Rightarrow> (error + unit) \<times> 'w state" where
  "setUp_call C cmd s =
     (case cmd_setUp C cmd (world s) of (r, w1) \<Rightarrow> (r, record_call [SetUp cmd] w1 s))"

definition after_setUp :: "'w collaborators \<Rightarrow> cmd \<Rightarrow> 'w state \<Rightarrow> 'w state" where
  "after_setUp C cmd s = snd (setUp_call C cmd s)"

text \<open>
  Lines 498-499, and 277-278 of isolated mode: the \<^verbatim>\<open>finally\<close> clause. It calls
  \<^verbatim>\<open>cmd.cleanUp()\<close> when the body has returned and when it has raised; an error
  that \<^verbatim>\<open>cleanUp\<close> raises takes the place of the body's outcome.
\<close>

definition finally_cleanUp :: "'w collaborators \<Rightarrow> cmd \<Rightarrow> (error + 'a) \<times> 'w state \<Rightarrow>
    (error + 'a) \<times> 'w state" where
  "finally_cleanUp C cmd out =
     (case out of
        (r, s1) \<Rightarrow>
          (case cmd_cleanUp C cmd (world s1) of
             (Inl e, w2) \<Rightarrow> (Inl e, record_call [CleanUp cmd] w2 s1)
           | (Inr u, w2) \<Rightarrow> (r, record_call [CleanUp cmd] w2 s1)))"

text \<open>Lines 458-499: \<^verbatim>\<open>setUp\<close>, the body in the \<^verbatim>\<open>try\<close>, and the \<^verbatim>\<open>finally\<close> clause.\<close>

definition run_tests :: "'w collaborators \<Rightarrow> cmd \<Rightarrow> run_opts \<Rightarrow> 'w state \<Rightarrow>
    ((error + int) \<times> 'w state) option" where
  "run_tests C cmd opts s =
     (case setUp_call C cmd s of
        (Inl e, s0) \<Rightarrow> Some (Inl e, s0)
      | (Inr u, s0) \<Rightarrow>
          map_option (finally_cleanUp C cmd)
            (if \<not> until_failure opts then Some (run_tests_inner C cmd opts s0)
             else until_failure_loop C cmd opts s0))"

subsection \<open>The ad-hoc path of \<^verbatim>\<open>run_command\<close> (lines 207-245)\<close>

text \<open>Lines 214-223: the nested function \<^verbatim>\<open>run_tests\<close> of the ad-hoc path.\<close>

definition adhoc_run_tests :: "'w collaborators \<Rightarrow> string \<Rightarrow> bool \<Rightarrow> run_opts \<Rightarrow> 'w state \<Rightarrow>
    (error + int) \<times> 'w state" where
  "adhoc_run_tests C command partial_arg opts s =
     (case popen C command (world s) of
        (proc, w1) \<Rightarrow>
          (let call = \<lparr> in_streams = [proc], partial = partial_arg,
                        load_subunit_out = subunit_out opts, run_id = combine_id opts \<rparr>
           in case load_load C call w1 of
                (r, w2) \<Rightarrow> (r, record_call [Popen command, Load call] w2 s)))"

text \<open>
  Line 233 tests \<^verbatim>\<open>subunit\<close>, which in this module is the package imported at
  line 21. A module object is true.
\<close>

definition subunit_module :: bool where
  "subunit_module = True"

text \<open>Lines 229-243: one pass of the loop of the ad-hoc path.\<close>

definition adhoc_iteration :: "'w collaborators \<Rightarrow> string \<Rightarrow> bool \<Rightarrow> run_opts \<Rightarrow> 'w state \<Rightarrow>
    (error + int) \<times> 'w state" where
  "adhoc_iteration C command partial_arg opts s =
     (case adhoc_run_tests C command partial_arg opts s of
        (Inl e, s1) \<Rightarrow> (Inl e, s1)
      | (Inr result, s1) \<Rightarrow>
          if subunit_module
          then (case latest_run_successful C (world s1) of
                  Inl e \<Rightarrow> (Inl e, s1)
                | Inr successful \<Rightarrow> (Inr (if \<not> successful then 1 else result), s1))
          else (Inr result, s1))"

partial_function (option) adhoc_loop :: "'w collaborators \<Rightarrow> string \<Rightarrow> bool \<Rightarrow> run_opts \<Rightarrow>
    'w state \<Rightarrow> ((error + int) \<times> 'w state) option" where
  "adhoc_loop C command partial_arg opts s =
     (case adhoc_iteration C command partial_arg opts s of
        (Inl e, s1) \<Rightarrow> Some (Inl e, s1)
      | (Inr result, s1) \<Rightarrow>
          if result \<noteq> 0 then Some (Inr result, s1)
          else adhoc_loop C command partial_arg opts s1)"

definition no_discover_run :: "'w collaborators \<Rightarrow> string \<Rightarrow> bool \<Rightarrow> run_opts \<Rightarrow> 'w state \<Rightarrow>
    ((error + int) \<times> 'w state) option" where
  "no_discover_run C no_discover partial_arg opts s =
     (if \<not> until_failure opts
      then Some (adhoc_run_tests C (run_cmd no_discover) partial_arg opts s)
      else adhoc_loop C (run_cmd no_discover) partial_arg opts s)"

subsection \<open>Isolated mode (lines 272-301)\<close>

text \<open>Lines 279-300: the loop over the discovered ids, \<^verbatim>\<open>result\<close> being the running maximum.\<close>

fun isolated_loop :: "'w collaborators \<Rightarrow> run_opts \<Rightarrow> test_id list \<Rightarrow> int \<Rightarrow> 'w state \<Rightarrow>
    ((error + int) \<times> 'w state) option" where
  "isolated_loop C opts [] result s = Some (Inr result, s)"
| "isolated_loop C opts (test_id # rest) result s =
     (case run_tests C (Some [test_id]) opts s of
        None \<Rightarrow> None
      | Some (Inl e, s1) \<Rightarrow> Some (Inl e, s1)
      | Some (Inr run_result, s1) \<Rightarrow>
          isolated_loop C opts rest (if run_result > result then run_result else result) s1)"

text \<open>Lines 274-278: the discovery pass.\<close>

definition discovery :: "'w collaborators \<Rightarrow> cmd \<Rightarrow> 'w state \<Rightarrow> (error + test_id list) \<times> 'w state" where
  "discovery C cmd s =
     (case setUp_call C cmd s of
        (Inl e, s0) \<Rightarrow> (Inl e, s0)
      | (Inr u, s0) \<Rightarrow>
          (case cmd_list_tests C cmd (world s0) of
             (r, w1) \<Rightarrow> finally_cleanUp C cmd (r, record_call [ListTests cmd] w1 s0)))"

text \<open>Lines 273-301: the discovery pass, then the loop.\<close>

definition isolated_run :: "'w collaborators \<Rightarrow> cmd \<Rightarrow> run_opts \<Rightarrow> 'w state \<Rightarrow>
    ((error + int) \<times> 'w state) option" where
  "isolated_run C cmd opts s =
     (case discovery C cmd s of
        (Inl e, s1) \<Rightarrow> Some (Inl e, s1)
      | (Inr ids, s1) \<Rightarrow> isolated_loop C opts ids 0 s1)"

text \<open>
  The per-test runs of isolated mode, one after the other: each id is run by
  \<^verbatim>\<open>_run_tests\<close> on a command for that id alone, and a raise ends the sequence.
  The list holds what each run returned or raised.
\<close>

fun per_test_runs :: "'w collaborators \<Rightarrow> run_opts \<Rightarrow> test_id list \<Rightarrow> 'w state \<Rightarrow>
    ((error + int) list \<times> 'w state) option" where
  "per_test_runs C opts [] s = Some ([], s)"
| "per_test_runs C opts (test_id # rest) s =
     (case run_tests C (Some [test_id]) opts s of
        None \<Rightarrow> None
      | Some (Inl e, s1) \<Rightarrow> Some ([Inl e], s1)
      | Some (Inr c, s1) \<Rightarrow>
          map_option (\<lambda>(rs, s2). (Inr c # rs, s2)) (per_test_runs C opts rest s1))"

text \<open>The exit codes returned and the errors raised in a list of outcomes.\<close>

definition codes :: "(error + int) list \<Rightarrow> int list" where
  "codes outs = concat (map (\<lambda>out. case out of Inl e \<Rightarrow> [] | Inr c \<Rightarrow> [c]) outs)"

definition raised :: "(error + int) list \<Rightarrow> error list" where
  "raised outs = concat (map (\<lambda>out. case out of Inl e \<Rightarrow> [e] | Inr c \<Rightarrow> []) outs)"

text \<open>
  The state in which pass \<open>i\<close> of the loop of \<^verbatim>\<open>_run_tests\<close> starts (passes
  counted from 0), and the result that pass computes.
\<close>

definition pass_state :: "'w collaborators \<Rightarrow> cmd \<Rightarrow> run_opts \<Rightarrow> 'w state \<Rightarrow> nat \<Rightarrow> 'w state" where
  "pass_state C cmd opts s i = ((\<lambda>s. snd (until_failure_iteration C cmd opts s)) ^^ i) s"

definition pass_result :: "'w collaborators \<Rightarrow> cmd \<Rightarrow> run_opts \<Rightarrow> 'w state \<Rightarrow> nat \<Rightarrow> error + int" where
  "pass_result C cmd opts s i = fst (until_failure_iteration C cmd opts (pass_state C cmd opts s i))"

definition is_body :: "event \<Rightarrow> bool" where
  "is_body ev = (case ev of RunTests _ \<Rightarrow> True | Load _ \<Rightarrow> True | Write _ \<Rightarrow> True | _ \<Rightarrow> False)"

definition is_cleanUp :: "event \<Rightarrow> bool" where
  "is_cleanUp ev = (case ev of CleanUp _ \<Rightarrow> True | _ \<Rightarrow> False)"

definition is_run :: "event \<Rightarrow> bool" where
  "is_run ev = (case ev of RunTests _ \<Rightarrow> True | _ \<Rightarrow> False)"

definition is_list :: "event \<Rightarrow> bool" where
  "is_list ev = (case ev of ListTests _ \<Rightarrow> True | _ \<Rightarrow> False)"

text \<open>The calls a state's list of calls gained since an earlier state.\<close>

definition new_calls :: "'w state \<Rightarrow> 'w state \<Rightarrow> event list" where
  "new_calls s s' = drop (length (calls s)) (calls s')"

subsection \<open>Isolation analysis (lines 312-408)\<close>

text \<open>
  Python binds the arguments of a call to the parameters before it runs the
  body, and raises TypeError when a parameter without a default is left
  unbound. \<^verbatim>\<open>_run_tests\<close> (line 454) has five such parameters: \<^verbatim>\<open>cmd\<close>,
  \<^verbatim>\<open>failing\<close>, \<^verbatim>\<open>analyze_isolation\<close>, \<^verbatim>\<open>isolated\<close> and \<^verbatim>\<open>until_failure\<close>. A
  call of it passes \<^verbatim>\<open>cmd\<close> and either the four flags or nothing more; the
  parameters with a default keep it. When the flags are missing the call raises
  before \<^verbatim>\<open>cmd.setUp()\<close>: no call reaches a collaborator and the state is as
  it was.
\<close>

definition call_run_tests :: "'w collaborators \<Rightarrow> cmd \<Rightarrow> (bool \<times> bool \<times> bool \<times> bool) option \<Rightarrow>
    'w state \<Rightarrow> ((error + int) \<times> 'w state) option" where
  "call_run_tests C cmd flags s =
     (case flags of
        None \<Rightarrow> Some (Inl TypeError, s)
      | Some (f, a, i, u) \<Rightarrow>
          run_tests C cmd
            \<lparr> failing = f, analyze_isolation = a, isolated = i, until_failure = u,
              subunit_out = False, combine_id = None \<rparr> s)"

text \<open>
  Line 349: the call \<^verbatim>\<open>_prior_tests(latest_run, spurious_failure)\<close>.
  \<^verbatim>\<open>_prior_tests\<close> (line 411) has the three parameters \<^verbatim>\<open>self\<close>, \<^verbatim>\<open>run\<close> and
  \<^verbatim>\<open>failing_id\<close>, none with a default. The two arguments are bound to \<^verbatim>\<open>self\<close>
  and \<^verbatim>\<open>run\<close>, \<^verbatim>\<open>failing_id\<close> is left unbound, and the call raises TypeError
  whatever the arguments are.
\<close>

definition prior_tests_call :: "test_dict list \<Rightarrow> test_id \<Rightarrow> error + test_id list" where
  "prior_tests_call latest_run spurious_failure = Inl TypeError"

text \<open>
  The repository as the analysis reads it: \<open>failing_stream\<close> is the decoded
  \<^verbatim>\<open>repo.get_failing()\<close>, \<open>latest_test_ids\<close> is
  \<^verbatim>\<open>repo.get_test_ids(repo.latest_id())\<close>, \<open>latest_run_stream\<close> the decoded
  \<^verbatim>\<open>repo.get_latest_run()\<close>. The spurious failures are a Python set, kept here as
  a list without repetitions; \<open>set_iter\<close> is the order in which a \<^verbatim>\<open>for\<close> loop
  visits it.
\<close>

record 'w repository =
  failing_stream :: "'w \<Rightarrow> test_dict list"
  latest_test_ids :: "'w \<Rightarrow> test_id list"
  latest_run_stream :: "'w \<Rightarrow> test_dict list"
  set_iter :: "test_id list \<Rightarrow> test_id list"

text \<open>
  Lines 320-332: stage one, the failing tests that pass when run alone. Line
  329 is \<^verbatim>\<open>_run_tests(cmd)\<close>, a call without the flags. A raise ends the loop
  and is propagated.
\<close>

fun stage_one :: "'w collaborators \<Rightarrow> 'w repository \<Rightarrow> test_id list \<Rightarrow> test_id list \<Rightarrow>
    'w state \<Rightarrow> ((error + test_id list) \<times> 'w state) option" where
  "stage_one C R [] spurious_failures s = Some (Inr spurious_failures, s)"
| "stage_one C R (test_id # rest) spurious_failures s =
     (case call_run_tests C (Some [test_id]) None s of
        None \<Rightarrow> None
      | Some (Inl e, s1) \<Rightarrow> Some (Inl e, s1)
      | Some (Inr rc, s1) \<Rightarrow>
          stage_one C R rest
            (if rc = 0
             then (if test_id \<in> set (latest_test_ids R (world s1))
                   then List.insert test_id spurious_failures else spurious_failures)
             else spurious_failures)
            s1)"

text \<open>
  \<^verbatim>\<open>int(ceil(width / 2.0))\<close>, line 355: the float division is exact for every
  width a list can have.
\<close>

definition check_width_of :: "int \<Rightarrow> int" where
  "check_width_of width = (width + 1) div 2"

text \<open>\<^verbatim>\<open>xs[i]\<close>: a negative index counts from the end, an index out of range raises.\<close>

definition py_index :: "'a list \<Rightarrow> int \<Rightarrow> error + 'a" where
  "py_index xs i =
     (if 0 \<le> i \<and> i < int (length xs) then Inr (xs ! nat i)
      else if i < 0 \<and> - int (length xs) \<le> i then Inr (xs ! nat (int (length xs) + i))
      else Inl IndexError)"

text \<open>
  Lines 356-379: one probe. The candidates of the lower half are to be run
  together with the failure, by \<^verbatim>\<open>_run_tests(cmd)\<close> without the flags (line
  365), and the failing set of the repository read again.
\<close>

definition probe :: "'w collaborators \<Rightarrow> 'w repository \<Rightarrow> test_id list \<Rightarrow> test_id \<Rightarrow> int \<Rightarrow>
    int \<Rightarrow> 'w state \<Rightarrow> ((error + bool) \<times> 'w state) option" where
  "probe C R candidate_causes spurious_failure bottom check_width s =
     (case call_run_tests C
             (Some (py_slice candidate_causes bottom (bottom + check_width) @ [spurious_failure]))
             None s of
        None \<Rightarrow> None
      | Some (Inl e, s1) \<Rightarrow> Some (Inl e, s1)
      | Some (Inr rc, s1) \<Rightarrow>
          Some (Inr (filter (\<lambda>d. td_id d = spurious_failure) (failing_stream R (world s1)) \<noteq> []),
                s1))"

record 'w search =
  bottom :: int
  top_idx :: int
  width :: int
  test_conflicts :: "(test_id \<times> string) list"
  reached :: "'w state"

text \<open>Lines 355-398: the body of the \<^verbatim>\<open>while width\<close> loop.\<close>

definition bisect_step :: "'w collaborators \<Rightarrow> 'w repository \<Rightarrow> test_id list \<Rightarrow> test_id \<Rightarrow>
    'w search \<Rightarrow> ((error \<times> 'w state) + 'w search) option" where
  "bisect_step C R candidate_causes spurious_failure b =
     (let check_width = check_width_of (width b)
      in case probe C R candidate_causes spurious_failure (bottom b) check_width (reached b) of
           None \<Rightarrow> None
         | Some (Inl e, s1) \<Rightarrow> Some (Inl (e, s1))
         | Some (Inr found_fail, s1) \<Rightarrow>
             Some (if found_fail
                   then (let top' = bottom b + check_width
                         in if width b = 1
                            then (case py_index candidate_causes (bottom b) of
                                    Inl e \<Rightarrow> Inl (e, s1)
                                  | Inr cause \<Rightarrow>
                                      Inr (b\<lparr> top_idx := top',
                                              test_conflicts :=
                                                AList.update spurious_failure cause
                                                  (test_conflicts b),
                                              width := 0, reached := s1 \<rparr>))
                            else Inr (b\<lparr> top_idx := top', width := top' - bottom b,
                                         reached := s1 \<rparr>))
                   else (let bottom' = bottom b + check_width
                         in if width b = 1
                            then Inr (b\<lparr> bottom := bottom', width := 0, reached := s1 \<rparr>)
                            else Inr (b\<lparr> bottom := bottom', width := top_idx b - bottom',
                                         reached := s1 \<rparr>))))"

text \<open>Lines 354-398: the loop; \<open>None\<close> would be a search that never ends.\<close>

partial_function (option) bisect_loop :: "'w collaborators \<Rightarrow> 'w repository \<Rightarrow> test_id list \<Rightarrow>
    test_id \<Rightarrow> 'w search \<Rightarrow> ((error \<times> 'w state) + 'w search) option" where
  "bisect_loop C R candidate_causes spurious_failure b =
     (if width b = 0 then Some (Inr b)
      else case bisect_step C R candidate_causes spurious_failure b of
             None \<Rightarrow> None
           | Some (Inl err) \<Rightarrow> Some (Inl err)
           | Some (Inr b') \<Rightarrow> bisect_loop C R candidate_causes spurious_failure b')"

text \<open>Lines 351-353: the range the search starts with.\<close>

definition initial_search :: "test_id list \<Rightarrow> (test_id \<times> string) list \<Rightarrow> 'w state \<Rightarrow> 'w search" where
  "initial_search candidate_causes conflicts s =
     \<lparr> bottom = 0, top_idx = int (length candidate_causes),
       width = int (length candidate_causes) - 0, test_conflicts = conflicts, reached = s \<rparr>"

text \<open>Lines 351-401: the search for one spurious failure, given its candidate causes.\<close>

definition bisect_failure :: "'w collaborators \<Rightarrow> 'w repository \<Rightarrow> test_id list \<Rightarrow> test_id \<Rightarrow>
    (test_id \<times> string) list \<Rightarrow> 'w state \<Rightarrow>
    ((error \<times> 'w state) + (test_id \<times> string) list \<times> 'w state) option" where
  "bisect_failure C R candidate_causes spurious_failure conflicts s =
     (case bisect_loop C R candidate_causes spurious_failure
             (initial_search candidate_causes conflicts s) of
        None \<Rightarrow> None
      | Some (Inl err) \<Rightarrow> Some (Inl err)
      | Some (Inr b) \<Rightarrow>
          Some (Inr (if spurious_failure \<notin> fst ` set (test_conflicts b)
                     then AList.update spurious_failure ''unknown - no conflicts''
                            (test_conflicts b)
                     else test_conflicts b,
                     reached b)))"

text \<open>Lines 348-401: the loop over the spurious failures.\<close>

fun stage_two :: "'w collaborators \<Rightarrow> 'w repository \<Rightarrow> test_dict list \<Rightarrow> test_id list \<Rightarrow>
    (test_id \<times> string) list \<Rightarrow> 'w state \<Rightarrow>
    ((error \<times> 'w state) + (test_id \<times> string) list \<times> 'w state) option" where
  "stage_two C R latest_run [] conflicts s = Some (Inr (conflicts, s))"
| "stage_two C R latest_run (spurious_failure # rest) conflicts s =
     (case prior_tests_call latest_run spurious_failure of
        Inl e \<Rightarrow> Some (Inl (e, s))
      | Inr candidate_causes \<Rightarrow>
          (case bisect_failure C R candidate_causes spurious_failure conflicts s of
             None \<Rightarrow> None
           | Some (Inl err) \<Rightarrow> Some (Inl err)
           | Some (Inr (conflicts', s1)) \<Rightarrow> stage_two C R latest_run rest conflicts' s1))"

text \<open>
  Lines 317-408: the analysis branch of \<^verbatim>\<open>run_command\<close> on the resolved ids.
  Besides the return code the model returns the conflict dict.
\<close>

definition analyze :: "'w collaborators \<Rightarrow> 'w repository \<Rightarrow> test_id list \<Rightarrow> 'w state \<Rightarrow>
    ((error + int) \<times> (test_id \<times> string) list \<times> 'w state) option" where
  "analyze C R ids s =
     (let latest_run = latest_run_stream R (world s)
      in case stage_one C R ids [] s of
           None \<Rightarrow> None
         | Some (Inl e, s1) \<Rightarrow> Some (Inl e, [], s1)
         | Some (Inr spurious_failures, s1) \<Rightarrow>
             if spurious_failures = [] then Some (Inr 0, [], s1)
             else (case stage_two C R latest_run (set_iter R spurious_failures) [] s1 of
                     None \<Rightarrow> None
                   | Some (Inl (e, s2)) \<Rightarrow> Some (Inl e, [], s2)
                   | Some (Inr (conflicts, s2)) \<Rightarrow>
                       if conflicts \<noteq> []
                       then Some (Inr 3, conflicts,
                                  record_call
                                    [OutputTable ((''failing test'', ''caused by test'') # conflicts)]
                                    (world s2) s2)
                       else Some (Inr 0, conflicts, s2)))"

text \<open>Recorded streams used as concrete inputs below.\<close>

definition single_run :: "test_dict list" where
  "single_run =
     [\<lparr>td_id = ''m.test_b'', td_status = ''success'', td_tags = [''worker-0'']\<rparr>,
      \<lparr>td_id = ''m.test_z'', td_status = ''success'', td_tags = [''worker-1'']\<rparr>,
      \<lparr>td_id = ''m.test_a'', td_status = ''success'', td_tags = [''slow'', ''worker-0'']\<rparr>,
      \<lparr>td_id = ''m.test_t'', td_status = ''fail'', td_tags = [''worker-0'']\<rparr>,
      \<lparr>td_id = ''m.test_c'', td_status = ''success'', td_tags = [''worker-0'']\<rparr>]"

definition repeated_run :: "test_dict list" where
  "repeated_run =
     [\<lparr>td_id = ''a'', td_status = ''success'', td_tags = [''worker-0'']\<rparr>,
      \<lparr>td_id = ''t'', td_status = ''fail'', td_tags = [''worker-0'']\<rparr>,
      \<lparr>td_id = ''t'', td_status = ''fail'', td_tags = [''worker-0'']\<rparr>]"

definition multi_run :: "test_dict list" where
  "multi_run =
     [\<lparr>td_id = ''a'', td_status = ''success'', td_tags = [''worker-0'']\<rparr>,
      \<lparr>td_id = ''b'', td_status = ''success'', td_tags = [''worker-1'']\<rparr>,
      \<lparr>td_id = ''n'', td_status = ''success'', td_tags = []\<rparr>,
      \<lparr>td_id = ''t'', td_status = ''fail'', td_tags = [''worker-0'', ''worker-1'']\<rparr>,
      \<lparr>td_id = ''c'', td_status = ''success'', td_tags = [''worker-0'']\<rparr>,
      \<lparr>td_id = ''t'', td_status = ''fail'', td_tags = []\<rparr>]"

text \<open>A stream that records t twice on worker-0 and once on worker-1.\<close>

definition twice_run :: "test_dict list" where
  "twice_run =
     [\<lparr>td_id = ''a'', td_status = ''success'', td_tags = [''worker-0'']\<rparr>,
      \<lparr>td_id = ''b'', td_status = ''success'', td_tags = [''worker-1'']\<rparr>,
      \<lparr>td_id = ''t'', td_status = ''fail'', td_tags = [''worker-0'']\<rparr>,
      \<lparr>td_id = ''t'', td_status = ''fail'', td_tags = [''worker-0'']\<rparr>,
      \<lparr>td_id = ''t'', td_status = ''fail'', td_tags = [''worker-1'']\<rparr>]"

text \<open>
  A scripted worker whose first two passes succeed and whose third fails: the
  world counts the loads done so far.
\<close>

definition scripted_worker :: "nat collaborators" where
  "scripted_worker =
     \<lparr> cmd_setUp = (\<lambda>c w. (Inr (), w)),
       cmd_list_tests = (\<lambda>c w. (Inr [], w)),
       cmd_run_tests = (\<lambda>c w. (Inr [0], w)),
       cmd_cleanUp = (\<lambda>c w. (Inr (), w)),
       popen = (\<lambda>command w. (0, w)),
       load_load = (\<lambda>call w. (Inr (if w < 2 then 0 else 1), Suc w)),
       latest_run_successful = (\<lambda>w. Inr True) \<rparr>"

text \<open>A worker whose every pass succeeds.\<close>

definition passing_worker :: "unit collaborators" where
  "passing_worker =
     \<lparr> cmd_setUp = (\<lambda>c w. (Inr (), w)),
       cmd_list_tests = (\<lambda>c w. (Inr [], w)),
       cmd_run_tests = (\<lambda>c w. (Inr [0], w)),
       cmd_cleanUp = (\<lambda>c w. (Inr (), w)),
       popen = (\<lambda>command w. (0, w)),
       load_load = (\<lambda>call w. (Inr 0, w)),
       latest_run_successful = (\<lambda>w. Inr True) \<rparr>"

definition until_opts :: run_opts where
  "until_opts =
     \<lparr> failing = False, analyze_isolation = False, isolated = False, until_failure = True,
       subunit_out = False, combine_id = None \<rparr>"

definition start :: "'w \<Rightarrow> 'w state" where
  "start w = \<lparr> world = w, calls = [] \<rparr>"

text \<open>
  A repository whose latest run holds a failure that the loader does not
  report: the run combines the new results with those of an earlier, failing
  run, and the loader returns 0 for the new results.
\<close>

definition combined_repo :: "unit collaborators" where
  "combined_repo =
     \<lparr> cmd_setUp = (\<lambda>c w. (Inr (), w)),
       cmd_list_tests = (\<lambda>c w. (Inr [], w)),
       cmd_run_tests = (\<lambda>c w. (Inr [0], w)),
       cmd_cleanUp = (\<lambda>c w. (Inr (), w)),
       popen = (\<lambda>command w. (0, w)),
       load_load = (\<lambda>call w. (Inr 0, w)),
       latest_run_successful = (\<lambda>w. Inr False) \<rparr>"

definition combine_opts :: run_opts where
  "combine_opts =
     \<lparr> failing = False, analyze_isolation = False, isolated = False, until_failure = True,
       subunit_out = False, combine_id = Some ''0'' \<rparr>"

text \<open>
  Discovery returns A, B and C; the run of B alone returns 2 and the others
  return 0. The process handle stands for the test it runs.
\<close>

definition three_tests :: "unit collaborators" where
  "three_tests =
     \<lparr> cmd_setUp = (\<lambda>c w. (Inr (), w)),
       cmd_list_tests = (\<lambda>c w. (Inr [''A'', ''B'', ''C''], w)),
       cmd_run_tests = (\<lambda>c w. (Inr [if c = Some [''B''] then 2 else 1], w)),
       cmd_cleanUp = (\<lambda>c w. (Inr (), w)),
       popen = (\<lambda>command w. (0, w)),
       load_load = (\<lambda>call w. (Inr (if in_streams call = [2] then 2 else 0), w)),
       latest_run_successful = (\<lambda>w. Inr True) \<rparr>"

text \<open>The same discovery, but the worker command of B raises when it is run.\<close>

definition raising_test :: "unit collaborators" where
  "raising_test =
     \<lparr> cmd_setUp = (\<lambda>c w. (Inr (), w)),
       cmd_list_tests = (\<lambda>c w. (Inr [''A'', ''B'', ''C''], w)),
       cmd_run_tests = (\<lambda>c w. (if c = Some [''B''] then Inl (Raised ''OSError'') else Inr [1], w)),
       cmd_cleanUp = (\<lambda>c w. (Inr (), w)),
       popen = (\<lambda>command w. (0, w)),
       load_load = (\<lambda>call w. (Inr 0, w)),
       latest_run_successful = (\<lambda>w. Inr True) \<rparr>"

text \<open>The same discovery, but \<^verbatim>\<open>setUp\<close> of the worker command of B raises.\<close>

definition raising_setUp :: "unit collaborators" where
  "raising_setUp =
     \<lparr> cmd_setUp = (\<lambda>c w. (if c = Some [''B''] then Inl (Raised ''OSError'') else Inr (), w)),
       cmd_list_tests = (\<lambda>c w. (Inr [''A'', ''B'', ''C''], w)),
       cmd_run_tests = (\<lambda>c w. (Inr [1], w)),
       cmd_cleanUp = (\<lambda>c w. (Inr (), w)),
       popen = (\<lambda>command w. (0, w)),
       load_load = (\<lambda>call w. (Inr 0, w)),
       latest_run_successful = (\<lambda>w. Inr True) \<rparr>"

definition isolated_opts :: run_opts where
  "isolated_opts =
     \<lparr> failing = False, analyze_isolation = False, isolated = True, until_failure = False,
       subunit_out = False, combine_id = None \<rparr>"

text \<open>A repository whose failing set holds t.\<close>

definition always_reproduces :: "unit repository" where
  "always_reproduces =
     \<lparr> failing_stream = (\<lambda>w. [\<lparr>td_id = ''t'', td_status = ''fail'', td_tags = []\<rparr>]),
       latest_test_ids = (\<lambda>w. [''t'']),
       latest_run_stream = (\<lambda>w. []),
       set_iter = (\<lambda>xs. xs) \<rparr>"

text \<open>
  The last full run of a project in which t1 fails when a has run before it on
  the same worker, and t2 failed for a reason that no probe reproduces. The
  world is the batch run last: the failing set holds t1 when that batch had
  both a and t1.
\<close>

definition contaminated_run :: "test_dict list" where
  "contaminated_run =
     [\<lparr>td_id = ''a'', td_status = ''success'', td_tags = [''worker-0'']\<rparr>,
      \<lparr>td_id = ''b'', td_status = ''success'', td_tags = [''worker-0'']\<rparr>,
      \<lparr>td_id = ''c'', td_status = ''success'', td_tags = [''worker-1'']\<rparr>,
      \<lparr>td_id = ''t1'', td_status = ''fail'', td_tags = [''worker-0'']\<rparr>,
      \<lparr>td_id = ''t2'', td_status = ''fail'', td_tags = [''worker-1'']\<rparr>]"

definition contaminated :: "test_id list repository" where
  "contaminated =
     \<lparr> failing_stream = (\<lambda>w. if ''a'' \<in> set w \<and> ''t1'' \<in> set w
                           then [\<lparr>td_id = ''t1'', td_status = ''fail'', td_tags = [''worker-0'']\<rparr>]
                           else []),
       latest_test_ids = (\<lambda>w. w),
       latest_run_stream = (\<lambda>w. contaminated_run),
       set_iter = rev \<rparr>"

text \<open>A worker command whose calls all return and change nothing, and whose runs pass.\<close>

definition quiet_worker :: "'w collaborators" where
  "quiet_worker =
     \<lparr> cmd_setUp = (\<lambda>c w. (Inr (), w)),
       cmd_list_tests = (\<lambda>c w. (Inr [], w)),
       cmd_run_tests = (\<lambda>c w. (Inr [0], w)),
       cmd_cleanUp = (\<lambda>c w. (Inr (), w)),
       popen = (\<lambda>command w. (0, w)),
       load_load = (\<lambda>call w. (Inr 0, w)),
       latest_run_successful = (\<lambda>w. Inr True) \<rparr>"

section \<open>Properties\<close>

subsection \<open>The reconstruction of prior tests\<close>

lemma map_of_setdefault_extend:
  "map_of (setdefault_extend k vs d) k' =
     (if k' = k then Some (lookup_list d k @ vs) else map_of d k')"
  by (simp add: setdefault_extend_def lookup_list_def AList.update_conv')

lemma lookup_list_setdefault_extend:
  "lookup_list (setdefault_extend k vs d) k' =
     (if k' = k then lookup_list d k @ vs else lookup_list d k')"
  by (simp add: lookup_list_def map_of_setdefault_extend)

lemma map_of_fold_setdefault:
  "map_of (fold (\<lambda>worker d. setdefault_extend worker [i] d) ws d) w =
     (if w \<in> set ws
      then Some (lookup_list d w @ map (\<lambda>_. i) (filter (\<lambda>x. x = w) ws))
      else map_of d w)"
proof (induction ws arbitrary: d)
  case Nil
  then show ?case by simp
next
  case (Cons a ws)
  show ?case
    by (simp add: Cons.IH map_of_setdefault_extend lookup_list_setdefault_extend)
      (auto simp: lookup_list_def filter_empty_conv)
qed

lemma dict_workers_nonempty: "dict_workers d \<noteq> []"
  by (simp add: dict_workers_def Let_def)

lemma map_of_w2t_fold:
  "map_of (worker_to_test (fold map_test run h)) w =
     (if worker_seq w run = [] then map_of (worker_to_test h) w
      else Some (lookup_list (worker_to_test h) w @ worker_seq w run))"
proof (induction run arbitrary: h)
  case Nil
  then show ?case by (simp add: worker_seq_def)
next
  case (Cons d run)
  have step: "map_of (worker_to_test (map_test d h)) w =
      (if w \<in> set (dict_workers d)
       then Some (lookup_list (worker_to_test h) w @
                  map (\<lambda>_. td_id d) (filter (\<lambda>x. x = w) (dict_workers d)))
       else map_of (worker_to_test h) w)"
    by (simp add: map_test_def Let_def map_of_fold_setdefault)
  have seq: "worker_seq w (d # run) =
      map (\<lambda>_. td_id d) (filter (\<lambda>x. x = w) (dict_workers d)) @ worker_seq w run"
    by (simp add: worker_seq_def)
  have mem: "(filter (\<lambda>x. x = w) (dict_workers d) = []) = (w \<notin> set (dict_workers d))"
    by (auto simp: filter_empty_conv)
  show ?case
    by (simp add: Cons.IH step seq mem lookup_list_def)
qed

lemma map_of_t2w_fold:
  "map_of (test_to_worker (fold map_test run h)) t =
     (if t \<notin> td_id ` set run then map_of (test_to_worker h) t
      else Some (lookup_list (test_to_worker h) t @ id_workers t run))"
proof (induction run arbitrary: h)
  case Nil
  then show ?case by (simp add: id_workers_def)
next
  case (Cons d run)
  have step: "map_of (test_to_worker (map_test d h)) t =
      (if t = td_id d then Some (lookup_list (test_to_worker h) t @ dict_workers d)
       else map_of (test_to_worker h) t)"
    by (simp add: map_test_def Let_def map_of_setdefault_extend)
  have seq: "id_workers t (d # run) =
      (if td_id d = t then dict_workers d else []) @ id_workers t run"
    by (simp add: id_workers_def)
  have none: "t \<notin> td_id ` set run \<Longrightarrow> id_workers t run = []"
    by (auto simp: id_workers_def)
  show ?case
    by (auto simp add: Cons.IH step seq lookup_list_def none)
qed

lemma w2t_build:
  "map_of (worker_to_test (build_history run)) w =
     (if worker_seq w run = [] then None else Some (worker_seq w run))"
  by (simp add: build_history_def map_of_w2t_fold lookup_list_def)

lemma t2w_build:
  "map_of (test_to_worker (build_history run)) t =
     (if t \<in> td_id ` set run then Some (id_workers t run) else None)"
  by (simp add: build_history_def map_of_t2w_fold lookup_list_def)

lemma list_index_takeWhile:
  "v \<in> set xs \<Longrightarrow> list_index xs v = Some (length (takeWhile (\<lambda>x. x \<noteq> v) xs))"
  by (induction xs) auto

lemma list_index_None: "v \<notin> set xs \<Longrightarrow> list_index xs v = None"
  by (induction xs) auto

lemma take_length_takeWhile: "take (length (takeWhile P xs)) xs = takeWhile P xs"
  by (induction xs) auto

lemma id_workers_in_seq:
  "w \<in> set (id_workers t run) \<Longrightarrow> t \<in> set (worker_seq w run)"
  by (auto simp: id_workers_def worker_seq_def split: if_splits)

lemma extend_prior_build:
  "set ws \<subseteq> set (id_workers t run) \<Longrightarrow>
   extend_prior (build_history run) t ws acc =
     Inr (acc @ concat (map (\<lambda>w. takeWhile (\<lambda>x. x \<noteq> t) (worker_seq w run)) ws))"
proof (induction ws arbitrary: acc)
  case Nil
  then show ?case by simp
next
  case (Cons w ws)
  then have mem: "t \<in> set (worker_seq w run)"
    by (simp add: id_workers_in_seq)
  then have ne: "worker_seq w run \<noteq> []" by auto
  from Cons show ?case
    by (simp add: w2t_build ne list_index_takeWhile [OF mem] take_length_takeWhile)
qed

lemma prior_tests_fresh:
  "fst (prior_tests None run t) =
     (if t \<in> td_id ` set run
      then Inr (concat (map (\<lambda>w. takeWhile (\<lambda>x. x \<noteq> t) (worker_seq w run)) (id_workers t run)))
      else Inl KeyError)"
  by (simp add: prior_tests_def memo_history_def Let_def t2w_build extend_prior_build)

lemma snd_prior_tests: "snd (prior_tests self run t) = Some (memo_history self run)"
  by (simp add: prior_tests_def Let_def)

lemma memo_history_idem:
  "memo_history (Some (memo_history self run)) run = memo_history self run"
  by (auto simp: memo_history_def split: option.splits)

lemma prior_tests_twice:
  "prior_tests (snd (prior_tests self run t)) run t = prior_tests self run t"
  by (simp add: snd_prior_tests) (simp add: prior_tests_def memo_history_idem)


lemmas run_eval_simps =
  prior_tests_def memo_history_def build_history_def map_test_def dict_workers_def
  startswith_def setdefault_extend_def worker_seq_def id_workers_def Let_def

text \<open>
  C2 for every id that appears in the stream: \<^verbatim>\<open>_prior_tests\<close> would return
  exactly the prefix of that id's worker's sequence before the id. On a stream
  where the id was recorded twice on one worker the code returns that prefix
  twice.
\<close>

theorem prior_tests_prefix_counterexample:
  "fst (prior_tests None repeated_run ''t'') = Inr [''a'', ''a''] \<and>
   fst (prior_tests None repeated_run ''t'') \<noteq>
     Inr (takeWhile (\<lambda>x. x \<noteq> ''t'') (worker_seq (Some ''worker-0'') repeated_run))"
  by (simp add: run_eval_simps repeated_run_def)

text \<open>
  C2 for an id with one worker: when the failing id has exactly one worker association in the
  stream (it appears in one event, which carries at most one worker tag),
  \<^verbatim>\<open>_prior_tests\<close> on a fresh analyzer returns exactly the part of that worker's
  recorded sequence, in arrival order, that lies strictly before the id. For
  every analyzer state, stream and id, whatever the associations of the id,
  calling it a second time on the analyzer the first call left returns the
  same result and the same memo.
\<close>

theorem prior_tests_single_worker:
  "(id_workers t run = [w] \<longrightarrow>
      fst (prior_tests None run t) = Inr (takeWhile (\<lambda>x. x \<noteq> t) (worker_seq w run))) \<and>
   prior_tests (snd (prior_tests self run t)) run t = prior_tests self run t"
proof (intro conjI impI)
  assume one: "id_workers t run = [w]"
  have "t \<in> td_id ` set run"
  proof (rule ccontr)
    assume "t \<notin> td_id ` set run"
    then have "id_workers t run = []" by (auto simp: id_workers_def)
    with one show False by simp
  qed
  then show "fst (prior_tests None run t) = Inr (takeWhile (\<lambda>x. x \<noteq> t) (worker_seq w run))"
    using one by (simp add: prior_tests_fresh)
next
  show "prior_tests (snd (prior_tests self run t)) run t = prior_tests self run t"
    by (rule prior_tests_twice)
qed

text \<open>
  A stream with two workers: the id has one association. The second call is
  also the same on the stream that records the id twice.
\<close>

theorem prior_tests_single_worker_witness:
  "id_workers ''m.test_t'' single_run = [Some ''worker-0''] \<and>
   fst (prior_tests None single_run ''m.test_t'') = Inr [''m.test_b'', ''m.test_a''] \<and>
   prior_tests (snd (prior_tests None single_run ''m.test_t'')) single_run ''m.test_t'' =
     prior_tests None single_run ''m.test_t'' \<and>
   prior_tests (snd (prior_tests None repeated_run ''t'')) repeated_run ''t'' =
     prior_tests None repeated_run ''t''"
proof -
  have h: "id_workers ''m.test_t'' single_run = [Some ''worker-0'']"
    by (simp add: run_eval_simps single_run_def)
  have v: "takeWhile (\<lambda>x. x \<noteq> ''m.test_t'') (worker_seq (Some ''worker-0'') single_run) =
      [''m.test_b'', ''m.test_a'']"
    by (simp add: run_eval_simps single_run_def)
  from prior_tests_single_worker [of "''m.test_t''" single_run "Some ''worker-0''" None]
    prior_tests_single_worker [of "''t''" repeated_run None None]
  show ?thesis
    by (simp only: h v simp_thms)
qed

text \<open>
  C3: for an id that appears in no event of the decoded stream,
  \<^verbatim>\<open>_prior_tests\<close> raises KeyError (line 446), on the first call and on a call
  that finds the memo; it does not return an empty list.
\<close>

theorem prior_tests_absent_id:
  assumes "t \<notin> td_id ` set run"
  shows "fst (prior_tests None run t) = Inl KeyError \<and>
         fst (prior_tests (snd (prior_tests None run t)) run t) = Inl KeyError \<and>
         fst (prior_tests None run t) \<noteq> Inr []"
  using assms by (simp add: prior_tests_twice prior_tests_fresh)

theorem prior_tests_absent_id_witness:
  "''bad_test_id'' \<notin> td_id ` set single_run \<and>
   fst (prior_tests None single_run ''bad_test_id'') = Inl KeyError"
proof -
  have h: "''bad_test_id'' \<notin> td_id ` set single_run"
    by (simp add: single_run_def)
  from prior_tests_absent_id [OF h] h show ?thesis by simp
qed

text \<open>
  C10 as it is worded, the concatenation over every worker the id was
  associated with, each worker counted once: on a stream that records the id
  twice on worker-0 and once on worker-1 the code returns the prefix of
  worker-0 twice. The result is not the concatenation over the two workers in
  either order.
\<close>

theorem prior_tests_over_workers_counterexample:
  "fst (prior_tests None twice_run ''t'') = Inr [''a'', ''a'', ''b''] \<and>
   remdups (id_workers ''t'' twice_run) = [Some ''worker-0'', Some ''worker-1''] \<and>
   spec_prior_over_workers [Some ''worker-0'', Some ''worker-1''] twice_run ''t'' = [''a'', ''b''] \<and>
   spec_prior_over_workers [Some ''worker-1'', Some ''worker-0''] twice_run ''t'' = [''b'', ''a''] \<and>
   fst (prior_tests None twice_run ''t'') \<noteq>
     Inr (spec_prior_over_workers (remdups (id_workers ''t'' twice_run)) twice_run ''t'')"
  by (simp add: run_eval_simps spec_prior_over_workers_def twice_run_def)

text \<open>
  C10 for the associations: for an id that appears in the stream,
  \<^verbatim>\<open>_prior_tests\<close> returns the concatenation, over the associations of the id
  (one for each event of the id and each worker tag of that event, the
  no-worker value \<open>None\<close> for an event without one, in the order they were
  recorded, so that a worker recorded \<open>k\<close> times for the id is taken \<open>k\<close>
  times), of that worker's recorded sequence before the first occurrence of
  the id on that worker.
\<close>

theorem prior_tests_concat_workers:
  assumes "t \<in> td_id ` set run"
  shows "fst (prior_tests None run t) =
     Inr (concat (map (\<lambda>w. takeWhile (\<lambda>x. x \<noteq> t) (worker_seq w run)) (id_workers t run)))"
  using assms by (simp add: prior_tests_fresh)

text \<open>
  A stream in which the id has three associations with two workers, and one in
  which it has three with three, the no-worker value among them.
\<close>

theorem prior_tests_concat_workers_witness:
  "''t'' \<in> td_id ` set twice_run \<and>
   id_workers ''t'' twice_run = [Some ''worker-0'', Some ''worker-0'', Some ''worker-1''] \<and>
   worker_seq (Some ''worker-0'') twice_run = [''a'', ''t'', ''t''] \<and>
   worker_seq (Some ''worker-1'') twice_run = [''b'', ''t''] \<and>
   fst (prior_tests None twice_run ''t'') = Inr [''a'', ''a'', ''b''] \<and>
   ''t'' \<in> td_id ` set multi_run \<and>
   id_workers ''t'' multi_run = [Some ''worker-0'', Some ''worker-1'', None] \<and>
   worker_seq (Some ''worker-0'') multi_run = [''a'', ''t'', ''c''] \<and>
   worker_seq None multi_run = [''n'', ''t''] \<and>
   fst (prior_tests None multi_run ''t'') = Inr [''a'', ''b'', ''n'']"
proof -
  have h: "''t'' \<in> td_id ` set multi_run"
    by (simp add: multi_run_def)
  have v: "id_workers ''t'' multi_run = [Some ''worker-0'', Some ''worker-1'', None]"
      "worker_seq (Some ''worker-0'') multi_run = [''a'', ''t'', ''c'']"
      "worker_seq (Some ''worker-1'') multi_run = [''b'', ''t'']"
      "worker_seq None multi_run = [''n'', ''t'']"
    by (simp_all add: run_eval_simps multi_run_def)
  have h2: "''t'' \<in> td_id ` set twice_run"
    by (simp add: twice_run_def)
  have v2: "id_workers ''t'' twice_run = [Some ''worker-0'', Some ''worker-0'', Some ''worker-1'']"
      "worker_seq (Some ''worker-0'') twice_run = [''a'', ''t'', ''t'']"
      "worker_seq (Some ''worker-1'') twice_run = [''b'', ''t'']"
    by (simp_all add: run_eval_simps twice_run_def)
  from prior_tests_concat_workers [OF h] prior_tests_concat_workers [OF h2] h h2 show ?thesis
    by (simp add: v v2)
qed

subsection \<open>The ad-hoc test id\<close>

lemma py_find_conv:
  "py_find s c = (if c \<in> set s then int (length (takeWhile (\<lambda>x. x \<noteq> c) s)) else - 1)"
  by (induction s) (auto simp: Let_def)

lemma py_rfind_conv:
  "py_rfind s c =
     (if c \<in> set s then int (length s) - 1 - int (length (takeWhile (\<lambda>x. x \<noteq> c) (rev s)))
      else - 1)"
  by (simp add: py_rfind_def py_find_conv Let_def)

lemma dir_last: "dir_part p @ last_segment p = p"
proof -
  have "rev (takeWhile (\<lambda>c. c \<noteq> CHR ''/'') (rev p) @ dropWhile (\<lambda>c. c \<noteq> CHR ''/'') (rev p)) = p"
    by simp
  then show ?thesis unfolding dir_part_def last_segment_def by (simp only: rev_append)
qed

lemma length_dir_last: "length p = length (dir_part p) + length (last_segment p)"
proof -
  have "length p = length (dir_part p @ last_segment p)"
    by (simp only: dir_last)
  then show ?thesis by simp
qed

lemma sepIndex_conv: "py_rfind p CHR ''/'' = int (length (dir_part p)) - 1"
proof (cases "CHR ''/'' \<in> set p")
  case True
  have "length (takeWhile (\<lambda>x. x \<noteq> CHR ''/'') (rev p)) = length (last_segment p)"
    by (simp add: last_segment_def)
  with True show ?thesis
    using length_dir_last [of p] by (simp add: py_rfind_conv)
next
  case False
  then have "dropWhile (\<lambda>c. c \<noteq> CHR ''/'') (rev p) = []"
    by auto
  with False show ?thesis by (simp add: py_rfind_conv dir_part_def)
qed

lemma segment_split:
  assumes "CHR ''.'' \<in> set seg"
  shows "seg = segment_stem seg @ CHR ''.'' # rev (takeWhile (\<lambda>c. c \<noteq> CHR ''.'') (rev seg))"
proof -
  let ?P = "\<lambda>c. c \<noteq> CHR ''.''"
  from assms have ne: "dropWhile ?P (rev seg) \<noteq> []"
    by (simp add: dropWhile_eq_Nil_conv) 
  then have hd: "hd (dropWhile ?P (rev seg)) = CHR ''.''"
    using hd_dropWhile [of ?P "rev seg"] by simp
  have "butlast (rev (dropWhile ?P (rev seg))) @ [last (rev (dropWhile ?P (rev seg)))] =
      rev (dropWhile ?P (rev seg))"
    using ne by (intro append_butlast_last_id) simp
  then have a: "rev (dropWhile ?P (rev seg)) = segment_stem seg @ [CHR ''.'']"
    using ne hd by (simp add: last_rev segment_stem_def)
  have "rev (takeWhile ?P (rev seg) @ dropWhile ?P (rev seg)) = seg"
    by simp
  then have "seg = rev (dropWhile ?P (rev seg)) @ rev (takeWhile ?P (rev seg))"
    by (simp only: rev_append)
  then show ?thesis by (simp only: a append_assoc append_Cons append_Nil)
qed

lemma last_segment_no_sep: "CHR ''/'' \<notin> set (last_segment p)"
  by (auto simp: last_segment_def dest: set_takeWhileD)

lemma dotIndex_in_segment:
  assumes "CHR ''.'' \<in> set (last_segment p)"
  shows "py_rfind p CHR ''.'' = int (length (dir_part p)) + int (length (segment_stem (last_segment p)))"
proof -
  let ?P = "\<lambda>c. c \<noteq> CHR ''.''"
  let ?seg = "last_segment p"
  have "rev p = rev (dir_part p @ ?seg)"
    by (simp only: dir_last)
  then have p: "rev p = rev ?seg @ rev (dir_part p)"
    by simp
  have "takeWhile ?P (rev p) = takeWhile ?P (rev ?seg)"
    unfolding p using assms by (intro takeWhile_append1 [of "CHR ''.''"]) auto
  moreover have "length ?seg =
      length (segment_stem ?seg @ CHR ''.'' # rev (takeWhile ?P (rev ?seg)))"
    by (rule arg_cong [OF segment_split [OF assms]])
  then have "length ?seg = length (segment_stem ?seg) + 1 + length (takeWhile ?P (rev ?seg))"
    by simp
  moreover have "set p = set (dir_part p) \<union> set ?seg"
    by (subst (1) dir_last [of p, symmetric]) simp
  then have "CHR ''.'' \<in> set p"
    using assms by simp
  ultimately show ?thesis
    using length_dir_last [of p] by (simp add: py_rfind_conv)
qed

lemma dotIndex_outside:
  assumes "CHR ''.'' \<notin> set (last_segment p)"
  shows "py_rfind p CHR ''.'' \<le> py_rfind p CHR ''/''"
proof (cases "CHR ''.'' \<in> set p")
  case False
  then have "py_rfind p CHR ''.'' = - 1" by (simp add: py_rfind_conv)
  then show ?thesis by (simp add: sepIndex_conv)
next
  case True
  let ?P = "\<lambda>c. c \<noteq> CHR ''.''"
  let ?seg = "last_segment p"
  have "rev p = rev (dir_part p @ ?seg)"
    by (simp only: dir_last)
  then have p: "rev p = rev ?seg @ rev (dir_part p)"
    by simp
  have "takeWhile ?P (rev p) = rev ?seg @ takeWhile ?P (rev (dir_part p))"
    unfolding p using assms by (intro takeWhile_append2) auto
  then have "length (takeWhile ?P (rev p)) \<ge> length ?seg" by simp
  moreover have "py_rfind p CHR ''.'' = int (length p) - 1 - int (length (takeWhile ?P (rev p)))"
    using True by (simp add: py_rfind_conv)
  ultimately show ?thesis
    using length_dir_last [of p] by (simp add: sepIndex_conv)
qed

lemma py_slice_one:
  "0 \<le> i \<Longrightarrow> nat i < length xs \<Longrightarrow> py_slice xs i (i + 1) = [xs ! nat i]"
proof -
  assume a: "0 \<le> i" "nat i < length xs"
  have "take (Suc (nat i) - nat i) (drop (nat i) xs) = [xs ! nat i]"
    using a by (simp add: take_Suc hd_drop_conv_nth)
  moreover have "nat (i + 1) = Suc (nat i)" using a by simp
  moreover have "min (length xs) (Suc (nat i)) = Suc (nat i)" using a by simp
  moreover have "min (length xs) (nat i) = nat i" using a by simp
  ultimately show ?thesis
    using a by (simp add: py_slice_def slice_bound_def Let_def)
qed

lemma py_slice_prefix:
  "0 \<le> j \<Longrightarrow> py_slice xs 0 j = take (nat j) xs"
  by (simp add: py_slice_def slice_bound_def Let_def min_def)

lemma py_slice_suffix:
  "0 \<le> i \<Longrightarrow> py_slice xs i (int (length xs)) = drop (nat i) xs"
  by (simp add: py_slice_def slice_bound_def Let_def min_def)

lemma skip_leading_dots_conv:
  "0 \<le> f \<Longrightarrow> d \<le> int (length p) \<Longrightarrow>
   skip_leading_dots p f d =
     (if \<exists>i. f \<le> i \<and> i < d \<and> p ! nat i \<noteq> CHR ''.''
      then Some (take (nat d) p, drop (nat d) p) else None)"
proof (induction p f d rule: skip_leading_dots.induct)
  case (1 p f d)
  show ?case
  proof (cases "f < d")
    case False
    then show ?thesis by (subst skip_leading_dots.simps) auto
  next
    case lt: True
    with 1 have one: "py_slice p f (f + 1) = [p ! nat f]"
      by (intro py_slice_one) auto
    have pre: "py_slice p 0 d = take (nat d) p" using lt 1 by (intro py_slice_prefix) auto
    have suf: "py_slice p d (int (length p)) = drop (nat d) p" using lt 1 by (intro py_slice_suffix) auto
    show ?thesis
    proof (cases "p ! nat f = CHR ''.''")
      case False
      with lt show ?thesis
        by (subst skip_leading_dots.simps) (auto simp: one pre suf)
    next
      case True
      have ih: "skip_leading_dots p (f + 1) d =
         (if \<exists>i. f + 1 \<le> i \<and> i < d \<and> p ! nat i \<noteq> CHR ''.''
          then Some (take (nat d) p, drop (nat d) p) else None)"
        using 1 lt True by (intro "1.IH") (auto simp: one)
      have ex: "(\<exists>i. f + 1 \<le> i \<and> i < d \<and> p ! nat i \<noteq> CHR ''.'') =
                (\<exists>i. f \<le> i \<and> i < d \<and> p ! nat i \<noteq> CHR ''.'')"
      proof
        assume "\<exists>i. f + 1 \<le> i \<and> i < d \<and> p ! nat i \<noteq> CHR ''.''"
        then obtain i where "f + 1 \<le> i" "i < d" "p ! nat i \<noteq> CHR ''.''" by blast
        then show "\<exists>i. f \<le> i \<and> i < d \<and> p ! nat i \<noteq> CHR ''.''"
          by (intro exI [of _ i]) auto
      next
        assume "\<exists>i. f \<le> i \<and> i < d \<and> p ! nat i \<noteq> CHR ''.''"
        then obtain i where i: "f \<le> i" "i < d" "p ! nat i \<noteq> CHR ''.''" by blast
        with True have "i \<noteq> f" by auto
        with i show "\<exists>i. f + 1 \<le> i \<and> i < d \<and> p ! nat i \<noteq> CHR ''.''"
          by (intro exI [of _ i]) auto
      qed
      show ?thesis
        by (subst skip_leading_dots.simps) (simp add: lt one True ih ex)
    qed
  qed
qed


lemma splitext_conv:
  "splitext p =
     (if has_extension (last_segment p)
      then (dir_part p @ segment_stem (last_segment p),
            CHR ''.'' # rev (takeWhile (\<lambda>c. c \<noteq> CHR ''.'') (rev (last_segment p))))
      else (p, []))"
proof (cases "CHR ''.'' \<in> set (last_segment p)")
  case False
  then have "\<not> py_rfind p CHR ''/'' < py_rfind p CHR ''.''"
    using dotIndex_outside [of p] by simp
  with False show ?thesis by (simp add: splitext_def has_extension_def Let_def)
next
  case True
  let ?d = "dir_part p" and ?seg = "last_segment p"
  let ?stem = "segment_stem ?seg"
  let ?tail = "rev (takeWhile (\<lambda>c. c \<noteq> CHR ''.'') (rev ?seg))"
  have p: "p = ?d @ ?stem @ CHR ''.'' # ?tail"
    using segment_split [OF True] dir_last [of p] by simp
  have di: "py_rfind p CHR ''.'' = int (length ?d) + int (length ?stem)"
    by (rule dotIndex_in_segment [OF True])
  have si: "py_rfind p CHR ''/'' = int (length ?d) - 1"
    by (rule sepIndex_conv)
  have len: "int (length ?d) + int (length ?stem) \<le> int (length p)"
    by (subst (3) p) simp
  have loop: "skip_leading_dots p (int (length ?d)) (int (length ?d) + int (length ?stem)) =
      (if \<exists>i. int (length ?d) \<le> i \<and> i < int (length ?d) + int (length ?stem) \<and> p ! nat i \<noteq> CHR ''.''
       then Some (take (nat (int (length ?d) + int (length ?stem))) p,
                  drop (nat (int (length ?d) + int (length ?stem))) p) else None)"
    using len by (intro skip_leading_dots_conv) auto
  have nat: "nat (int (length ?d) + int (length ?stem)) = length ?d + length ?stem"
    by simp
  have tk: "take (length ?d + length ?stem) p = ?d @ ?stem"
    by (subst p) simp
  have dr: "drop (length ?d + length ?stem) p = CHR ''.'' # ?tail"
    by (subst p) simp
  have nth: "p ! (length ?d + k) = ?stem ! k" if "k < length ?stem" for k
    using that by (subst p) (simp add: nth_append)
  have ex: "(\<exists>i. int (length ?d) \<le> i \<and> i < int (length ?d) + int (length ?stem) \<and> p ! nat i \<noteq> CHR ''.'') =
            (\<exists>c \<in> set ?stem. c \<noteq> CHR ''.'')"
  proof
    assume "\<exists>i. int (length ?d) \<le> i \<and> i < int (length ?d) + int (length ?stem) \<and> p ! nat i \<noteq> CHR ''.''"
    then obtain i where i: "int (length ?d) \<le> i" "i < int (length ?d) + int (length ?stem)"
        "p ! nat i \<noteq> CHR ''.''" by blast
    define k where "k = nat i - length ?d"
    have k: "k < length ?stem" "nat i = length ?d + k" using i by (auto simp: k_def)
    with nth [of k] i(3) have "?stem ! k \<noteq> CHR ''.''" by simp
    with k(1) show "\<exists>c \<in> set ?stem. c \<noteq> CHR ''.''"
      by (intro bexI [of _ "?stem ! k"]) simp_all
  next
    assume "\<exists>c \<in> set ?stem. c \<noteq> CHR ''.''"
    then obtain k where k: "k < length ?stem" "?stem ! k \<noteq> CHR ''.''"
      by (auto simp: in_set_conv_nth)
    have "p ! (length ?d + k) \<noteq> CHR ''.''"
      using nth [OF k(1)] k(2) by simp
    then have "p ! nat (int (length ?d + k)) \<noteq> CHR ''.''"
      by (simp add: nat_int_add)
    with k(1) show "\<exists>i. int (length ?d) \<le> i \<and> i < int (length ?d) + int (length ?stem) \<and> p ! nat i \<noteq> CHR ''.''"
      by (intro exI [of _ "int (length ?d + k)"]) auto
  qed
  have "splitext p =
      (case skip_leading_dots p (int (length ?d)) (int (length ?d) + int (length ?stem)) of
         Some r \<Rightarrow> r | None \<Rightarrow> (p, []))"
    by (simp add: splitext_def Let_def di si)
  also have "\<dots> = (if \<exists>c \<in> set ?stem. c \<noteq> CHR ''.''
                  then (?d @ ?stem, CHR ''.'' # ?tail) else (p, []))"
    by (simp only: loop ex nat tk dr) simp
  finally show ?thesis
    using True by (simp add: has_extension_def)
qed

lemma py_find_sep: "(py_find s c \<noteq> - 1) = (c \<in> set s)"
  by (simp add: py_find_conv)

lemma no_discover_ids_conv:
  "no_discover_ids s =
     (if CHR ''/'' \<in> set s then py_replace CHR ''/'' CHR ''.'' (spec_strip_extension s) else s)"
  by (simp add: no_discover_ids_def Let_def py_find_sep splitext_conv spec_strip_extension_def
      del: py_find.simps)

lemmas path_eval_simps =
  spec_strip_extension_def has_extension_def segment_stem_def last_segment_def dir_part_def
  py_replace_def

text \<open>
  C5: in ad-hoc mode the id handed to the worker is the input itself when the
  input contains no path separator; otherwise it is the input with its final
  extension stripped and every separator replaced by a dot. The path
  \<^verbatim>\<open>pkg/mod/test_file.py\<close> becomes \<^verbatim>\<open>pkg.mod.test_file\<close>, and dots inside
  the segments stay.
\<close>

theorem no_discover_ids_transform:
  "no_discover_ids s =
     (if CHR ''/'' \<in> set s then py_replace CHR ''/'' CHR ''.'' (spec_strip_extension s) else s) \<and>
   CHR ''/'' \<notin> set (no_discover_ids s) \<and>
   run_cmd s = ''python -m subunit.run '' @ no_discover_ids s"
proof -
  have "CHR ''/'' \<notin> set (py_replace CHR ''/'' CHR ''.'' x)" for x
    by (auto simp: py_replace_def)
  then show ?thesis
    by (simp add: no_discover_ids_conv run_cmd_def)
qed

theorem no_discover_ids_transform_witness:
  "no_discover_ids ''pkg/mod/test_file.py'' = ''pkg.mod.test_file'' \<and>
   no_discover_ids ''pkg.mod.test_file.TestCase.test_one'' =
     ''pkg.mod.test_file.TestCase.test_one'' \<and>
   no_discover_ids ''pkg.v1/mod.sub/test_file.py'' = ''pkg.v1.mod.sub.test_file'' \<and>
   no_discover_ids ''pkg.v1/mod'' = ''pkg.v1.mod''"
  using no_discover_ids_transform [of "''pkg/mod/test_file.py''"]
    no_discover_ids_transform [of "''pkg.mod.test_file.TestCase.test_one''"]
    no_discover_ids_transform [of "''pkg.v1/mod.sub/test_file.py''"]
    no_discover_ids_transform [of "''pkg.v1/mod''"]
  by (simp add: path_eval_simps)

subsection \<open>The execution primitive\<close>

lemma calls_record_call [simp]: "calls (record_call evs w s) = calls s @ evs"
  and world_record_call [simp]: "world (record_call evs w s) = w"
  by (simp_all add: record_call_def)

lemma run_tests_inner_calls:
  "\<exists>evs. calls (snd (run_tests_inner C cmd opts s)) = calls s @ evs \<and>
         (\<forall>ev \<in> set evs. is_body ev) \<and> filter is_run evs = [RunTests cmd]"
  by (auto simp: run_tests_inner_def Let_def is_body_def is_run_def split: prod.splits sum.splits)

lemma snd_until_failure_iteration:
  "snd (until_failure_iteration C cmd opts s) = snd (run_tests_inner C cmd opts s)"
  by (auto simp: until_failure_iteration_def split: prod.splits sum.splits)

lemma pass_state_Suc: "pass_state C cmd opts s (Suc i) =
    pass_state C cmd opts (snd (until_failure_iteration C cmd opts s)) i"
  by (simp only: pass_state_def funpow_Suc_right o_apply)

lemma pass_result_Suc: "pass_result C cmd opts s (Suc i) =
    pass_result C cmd opts (snd (until_failure_iteration C cmd opts s)) i"
  by (simp add: pass_result_def pass_state_Suc)

lemma pass_result_0: "pass_result C cmd opts s 0 = fst (until_failure_iteration C cmd opts s)"
  by (simp add: pass_result_def pass_state_def)

lemma until_failure_loop_returns:
  "\<forall>i<k. pass_result C cmd opts s i = Inr 0 \<Longrightarrow> pass_result C cmd opts s k = Inr r \<Longrightarrow> r \<noteq> 0 \<Longrightarrow>
   until_failure_loop C cmd opts s = Some (Inr r, pass_state C cmd opts s (Suc k))"
proof (induction k arbitrary: s)
  case 0
  then have "fst (until_failure_iteration C cmd opts s) = Inr r"
    by (simp add: pass_result_0)
  then obtain s1 where it: "until_failure_iteration C cmd opts s = (Inr r, s1)"
    by (cases "until_failure_iteration C cmd opts s") auto
  with 0 show ?case
    by (subst until_failure_loop.simps) (simp add: pass_state_def)
next
  case (Suc k)
  from Suc.prems(1) have "pass_result C cmd opts s 0 = Inr 0" by blast
  then have "fst (until_failure_iteration C cmd opts s) = Inr 0"
    by (simp add: pass_result_0)
  then obtain s1 where it: "until_failure_iteration C cmd opts s = (Inr 0, s1)"
    by (cases "until_failure_iteration C cmd opts s") auto
  have a: "\<forall>i<k. pass_result C cmd opts s1 i = Inr 0"
  proof (intro allI impI)
    fix i assume "i < k"
    then have "pass_result C cmd opts s (Suc i) = Inr 0" using Suc.prems(1) by simp
    then show "pass_result C cmd opts s1 i = Inr 0" using it by (simp add: pass_result_Suc)
  qed
  have b: "pass_result C cmd opts s1 k = Inr r"
    using Suc.prems(2) it by (simp add: pass_result_Suc)
  have "until_failure_loop C cmd opts s1 = Some (Inr r, pass_state C cmd opts s1 (Suc k))"
    by (rule Suc.IH [OF a b Suc.prems(3)])
  then show ?case
    using it by (subst until_failure_loop.simps) (simp add: pass_state_Suc [of _ _ _ s])
qed

lemma until_failure_loop_Some_pass:
  assumes "until_failure_loop C cmd opts s = Some y"
  shows "\<exists>i. pass_result C cmd opts s i \<noteq> Inr 0"
proof (rule until_failure_loop.raw_induct [OF _ assms])
  fix loop :: "'a collaborators \<Rightarrow> cmd \<Rightarrow> run_opts \<Rightarrow> 'a state \<Rightarrow> ((error + int) \<times> 'a state) option"
    and C cmd opts s y
  assume IH: "\<And>C cmd opts s y. loop C cmd opts s = Some y \<Longrightarrow>
      \<exists>i. pass_result C cmd opts s i \<noteq> Inr 0"
    and step: "(case until_failure_iteration C cmd opts s of
        (Inl e, s1) \<Rightarrow> Some (Inl e, s1)
      | (Inr result, s1) \<Rightarrow>
          if result \<noteq> 0 then Some (Inr result, s1) else loop C cmd opts s1) = Some y"
  obtain out s1 where it: "until_failure_iteration C cmd opts s = (out, s1)"
    by (cases "until_failure_iteration C cmd opts s")
  show "\<exists>i. pass_result C cmd opts s i \<noteq> Inr 0"
  proof (cases "out = Inr 0")
    case False
    with it have "pass_result C cmd opts s 0 \<noteq> Inr 0" by (simp add: pass_result_0)
    then show ?thesis by blast
  next
    case True
    with step it have "loop C cmd opts s1 = Some y" by simp
    then obtain i where "pass_result C cmd opts s1 i \<noteq> Inr 0" using IH by blast
    with it have "pass_result C cmd opts s (Suc i) \<noteq> Inr 0" by (simp add: pass_result_Suc)
    then show ?thesis by blast
  qed
qed

lemma until_failure_loop_never:
  "\<forall>i. pass_result C cmd opts s i = Inr 0 \<Longrightarrow> until_failure_loop C cmd opts s = None"
  using until_failure_loop_Some_pass [of C cmd opts s] by (cases "until_failure_loop C cmd opts s") auto

lemma pass_state_calls:
  "\<exists>evs. calls (pass_state C cmd opts s k) = calls s @ evs \<and>
         (\<forall>ev \<in> set evs. is_body ev) \<and> filter is_run evs = replicate k (RunTests cmd)"
proof (induction k arbitrary: s)
  case 0
  then show ?case by (simp add: pass_state_def)
next
  case (Suc k)
  let ?s1 = "snd (until_failure_iteration C cmd opts s)"
  obtain e1 where e1: "calls ?s1 = calls s @ e1" "\<forall>ev \<in> set e1. is_body ev"
      "filter is_run e1 = [RunTests cmd]"
    using run_tests_inner_calls [of C cmd opts s] by (auto simp: snd_until_failure_iteration)
  obtain e2 where e2: "calls (pass_state C cmd opts ?s1 k) = calls ?s1 @ e2"
      "\<forall>ev \<in> set e2. is_body ev" "filter is_run e2 = replicate k (RunTests cmd)"
    using Suc.IH [of ?s1] by blast
  show ?case
    by (rule exI [of _ "e1 @ e2"]) (use e1 e2 in \<open>auto simp: pass_state_Suc\<close>)
qed

lemma new_calls_append: "calls s' = calls s @ evs \<Longrightarrow> new_calls s s' = evs"
  by (simp add: new_calls_def)

lemma is_body_not_cleanUp: "is_body ev \<Longrightarrow> \<not> is_cleanUp ev"
  by (cases ev) (simp_all add: is_body_def is_cleanUp_def)

lemma is_cleanUp_simps [simp]:
  "is_cleanUp (CleanUp c)" "\<not> is_cleanUp (SetUp c)" "\<not> is_cleanUp (ListTests c)"
  "\<not> is_cleanUp (RunTests c)" "\<not> is_cleanUp (Popen x)" "\<not> is_cleanUp (Load l)"
  "\<not> is_cleanUp (Write x)" "\<not> is_cleanUp (OutputTable tb)"
  by (simp_all add: is_cleanUp_def)

lemma is_list_simps [simp]:
  "is_list (ListTests c)" "\<not> is_list (SetUp c)" "\<not> is_list (CleanUp c)"
  "\<not> is_list (RunTests c)" "\<not> is_list (Popen x)" "\<not> is_list (Load l)"
  "\<not> is_list (Write x)" "\<not> is_list (OutputTable tb)"
  by (simp_all add: is_list_def)

lemma filter_body_cleanUp: "\<forall>ev \<in> set evs. is_body ev \<Longrightarrow> filter is_cleanUp evs = []"
  by (induction evs) (auto dest: is_body_not_cleanUp)

lemma calls_setUp_call: "calls (snd (setUp_call C cmd s)) = calls s @ [SetUp cmd]"
  by (simp add: setUp_call_def split: prod.splits)

lemma fst_setUp_call: "fst (setUp_call C cmd s) = fst (cmd_setUp C cmd (world s))"
  by (simp add: setUp_call_def split: prod.splits)

lemma setUp_call_eq: "setUp_call C cmd s = (fst (cmd_setUp C cmd (world s)), after_setUp C cmd s)"
  by (simp add: after_setUp_def fst_setUp_call [symmetric])

lemma calls_after_setUp: "calls (after_setUp C cmd s) = calls s @ [SetUp cmd]"
  by (simp add: after_setUp_def calls_setUp_call)

lemma calls_finally_cleanUp:
  "calls (snd (finally_cleanUp C cmd (r, s1))) = calls s1 @ [CleanUp cmd]"
  by (simp add: finally_cleanUp_def split: prod.splits sum.splits)

lemma fst_finally_cleanUp:
  "fst (finally_cleanUp C cmd (r, s1)) =
     (case fst (cmd_cleanUp C cmd (world s1)) of Inl e \<Rightarrow> Inl e | Inr u \<Rightarrow> r)"
  by (simp add: finally_cleanUp_def split: prod.splits sum.splits)

lemma run_tests_raises_in_setUp:
  "fst (cmd_setUp C cmd (world s)) = Inl e \<Longrightarrow>
   run_tests C cmd opts s = Some (Inl e, after_setUp C cmd s)"
  by (simp add: run_tests_def setUp_call_eq)

lemma run_tests_after_setUp:
  "fst (cmd_setUp C cmd (world s)) = Inr u \<Longrightarrow>
   run_tests C cmd opts s =
     map_option (finally_cleanUp C cmd)
       (if \<not> until_failure opts then Some (run_tests_inner C cmd opts (after_setUp C cmd s))
        else until_failure_loop C cmd opts (after_setUp C cmd s))"
  by (simp add: run_tests_def setUp_call_eq)

text \<open>
  C9: in a run with \<^verbatim>\<open>until_failure\<close> that is not ad-hoc, \<^verbatim>\<open>_run_tests\<close> (once
  \<^verbatim>\<open>cmd.setUp()\<close> has returned) repeats the batch and returns at the first
  pass whose computed result is not 0, with exactly that result: when the
  passes 0 to \<open>k - 1\<close> compute 0 and pass \<open>k\<close> computes \<open>r \<noteq> 0\<close>, it ends
  after exactly \<open>k + 1\<close> calls of \<^verbatim>\<open>cmd.run_tests()\<close> and one \<^verbatim>\<open>cleanUp\<close>, and
  returns \<open>r\<close>, unless that \<^verbatim>\<open>cleanUp\<close> raises, whose error then takes the
  place of \<open>r\<close>. A pass that computes 0 never ends the loop: when every pass
  computes 0, \<^verbatim>\<open>_run_tests\<close> does not return.
\<close>

theorem run_tests_until_failure:
  assumes "until_failure opts" and "fst (cmd_setUp C cmd (world s)) = Inr ()"
  shows "((\<forall>i<k. pass_result C cmd opts (after_setUp C cmd s) i = Inr 0) \<and>
          pass_result C cmd opts (after_setUp C cmd s) k = Inr r \<and> r \<noteq> 0 \<longrightarrow>
          (\<exists>s'. run_tests C cmd opts s =
                   Some (case fst (cmd_cleanUp C cmd
                                     (world (pass_state C cmd opts (after_setUp C cmd s) (Suc k)))) of
                           Inl e \<Rightarrow> Inl e
                         | Inr u \<Rightarrow> Inr r, s') \<and>
                filter is_run (new_calls s s') = replicate (Suc k) (RunTests cmd) \<and>
                filter is_cleanUp (new_calls s s') = [CleanUp cmd])) \<and>
         ((\<forall>i. pass_result C cmd opts (after_setUp C cmd s) i = Inr 0) \<longrightarrow>
          run_tests C cmd opts s = None)"
proof (intro conjI impI)
  let ?s0 = "after_setUp C cmd s"
  assume h: "(\<forall>i<k. pass_result C cmd opts ?s0 i = Inr 0) \<and>
             pass_result C cmd opts ?s0 k = Inr r \<and> r \<noteq> 0"
  then have loop: "until_failure_loop C cmd opts ?s0 = Some (Inr r, pass_state C cmd opts ?s0 (Suc k))"
    by (intro until_failure_loop_returns) auto
  let ?s1 = "pass_state C cmd opts ?s0 (Suc k)"
  let ?out = "finally_cleanUp C cmd (Inr r :: error + int, ?s1)"
  let ?s' = "snd ?out"
  obtain evs where evs: "calls ?s1 = calls ?s0 @ evs" "\<forall>ev \<in> set evs. is_body ev"
      "filter is_run evs = replicate (Suc k) (RunTests cmd)"
    using pass_state_calls [of C cmd opts ?s0 "Suc k"] by blast
  have "calls ?s' = calls s @ (SetUp cmd # evs @ [CleanUp cmd])"
    using evs(1) by (simp add: calls_finally_cleanUp calls_after_setUp)
  then have nc: "new_calls s ?s' = SetUp cmd # evs @ [CleanUp cmd]"
    by (rule new_calls_append)
  have "run_tests C cmd opts s = Some ?out"
    using assms loop by (simp add: run_tests_after_setUp)
  then have "run_tests C cmd opts s =
      Some (case fst (cmd_cleanUp C cmd (world ?s1)) of Inl e \<Rightarrow> Inl e | Inr u \<Rightarrow> Inr r, ?s')"
    by (simp add: fst_finally_cleanUp [symmetric])
  moreover have "filter is_run (new_calls s ?s') = replicate (Suc k) (RunTests cmd)"
    unfolding nc using evs(3) by (simp add: is_run_def)
  moreover have "filter is_cleanUp (new_calls s ?s') = [CleanUp cmd]"
    unfolding nc using filter_body_cleanUp [OF evs(2)] by (simp add: is_cleanUp_def)
  ultimately show "\<exists>s'. run_tests C cmd opts s =
                   Some (case fst (cmd_cleanUp C cmd (world ?s1)) of
                           Inl e \<Rightarrow> Inl e
                         | Inr u \<Rightarrow> Inr r, s') \<and>
                filter is_run (new_calls s s') = replicate (Suc k) (RunTests cmd) \<and>
                filter is_cleanUp (new_calls s s') = [CleanUp cmd]"
    by blast
next
  assume "\<forall>i. pass_result C cmd opts (after_setUp C cmd s) i = Inr 0"
  then have "until_failure_loop C cmd opts (after_setUp C cmd s) = None"
    by (rule until_failure_loop_never)
  then show "run_tests C cmd opts s = None"
    using assms by (simp add: run_tests_after_setUp)
qed

text \<open>
  The scripted worker: two passes succeed, the third fails with code 1. With a
  worker whose passes all succeed the run does not return.
\<close>

theorem run_tests_until_failure_witness:
  "until_failure until_opts \<and>
   fst (cmd_setUp scripted_worker None (world (start 0))) = Inr () \<and>
   (\<exists>s'. run_tests scripted_worker None until_opts (start 0) = Some (Inr 1, s') \<and>
         filter is_run (new_calls (start 0) s') = replicate 3 (RunTests None) \<and>
         filter is_cleanUp (new_calls (start 0) s') = [CleanUp None]) \<and>
   run_tests passing_worker None until_opts (start ()) = None"
proof -
  have q: "fst (until_failure_iteration passing_worker None until_opts s) = Inr 0" for s
    by (simp add: until_failure_iteration_def run_tests_inner_def passing_worker_def
        until_opts_def Let_def)
  have never: "\<forall>i. pass_result passing_worker None until_opts
      (after_setUp passing_worker None (start ())) i = Inr 0"
    by (simp add: pass_result_def q)
  let ?s0 = "after_setUp scripted_worker None (start 0)"
  let ?it = "until_failure_iteration scripted_worker None until_opts"
  have u: "until_failure until_opts" by (simp add: until_opts_def)
  have su: "fst (cmd_setUp scripted_worker None (world (start 0))) = Inr ()"
    by (simp add: scripted_worker_def)
  have su': "fst (cmd_setUp passing_worker None (world (start ()))) = Inr ()"
    by (simp add: passing_worker_def)
  have cu: "fst (cmd_cleanUp scripted_worker None w) = Inr ()" for w
    by (simp add: scripted_worker_def)
  have w0: "world ?s0 = 0"
    by (simp add: after_setUp_def setUp_call_def scripted_worker_def start_def)
  have it: "fst (?it s) = Inr (if world s < 2 then 0 else 1)" "world (snd (?it s)) = Suc (world s)" for s
    by (simp_all add: until_failure_iteration_def run_tests_inner_def scripted_worker_def
        until_opts_def Let_def)
  have p0: "pass_result scripted_worker None until_opts ?s0 0 = Inr 0"
    by (simp add: pass_result_def pass_state_def it w0)
  have p1: "pass_result scripted_worker None until_opts ?s0 (Suc 0) = Inr 0"
    by (simp add: pass_result_def pass_state_def it w0)
  have p2: "pass_result scripted_worker None until_opts ?s0 2 = Inr 1"
    by (simp add: pass_result_def pass_state_def it w0 eval_nat_numeral)
  have lt: "\<forall>i<2. pass_result scripted_worker None until_opts ?s0 i = Inr 0"
    using p0 p1 by (auto simp: less_2_cases_iff)
  from run_tests_until_failure [OF u su, of 2 1] lt p2 u su
    run_tests_until_failure [OF u su', of 0 1] never
  show ?thesis by (simp add: eval_nat_numeral cu)
qed

subsection \<open>The result of a pass\<close>

text \<open>
  C6 says that a pass of either loop replaces the loader's code by 1, after
  reading the latest run back, if and only if subunit output was requested.
  The loop of \<^verbatim>\<open>_run_tests\<close> tests \<^verbatim>\<open>subunit_out\<close> (line 484). The loop of the
  ad-hoc path tests \<^verbatim>\<open>subunit\<close> (line 233), the imported package, under the
  same comment: it reads the latest run back in every pass. With subunit output
  not requested, a loader that returns 0 and a latest run that holds a failure,
  the pass of the ad-hoc path computes 1 and the loop returns it, where the
  pass of \<^verbatim>\<open>_run_tests\<close> computes the loader's 0.
\<close>

theorem adhoc_iteration_ignores_subunit_out:
  "\<not> subunit_out combine_opts \<and>
   fst (adhoc_run_tests combined_repo (run_cmd ''pkg/test_x.py'') False combine_opts (start ())) =
     Inr 0 \<and>
   fst (adhoc_iteration combined_repo (run_cmd ''pkg/test_x.py'') False combine_opts (start ())) =
     Inr 1 \<and>
   map_option fst (no_discover_run combined_repo ''pkg/test_x.py'' False combine_opts (start ())) =
     Some (Inr 1) \<and>
   fst (until_failure_iteration combined_repo None combine_opts (start ())) = Inr 0"
proof -
  have a: "adhoc_iteration combined_repo c False combine_opts s =
      (Inr 1, snd (adhoc_run_tests combined_repo c False combine_opts s))" for c s
    by (simp add: adhoc_iteration_def adhoc_run_tests_def combined_repo_def subunit_module_def
        Let_def)
  have "adhoc_loop combined_repo c False combine_opts s =
      Some (Inr 1, snd (adhoc_run_tests combined_repo c False combine_opts s))" for c s
    by (subst adhoc_loop.simps) (simp add: a)
  then show ?thesis
    by (simp add: a no_discover_run_def)
      (simp add: combine_opts_def adhoc_run_tests_def until_failure_iteration_def
        run_tests_inner_def combined_repo_def Let_def)
qed

text \<open>The two passes in general.\<close>

lemma until_failure_iteration_keeps_code:
  "\<not> subunit_out opts \<Longrightarrow>
   until_failure_iteration C cmd opts s = run_tests_inner C cmd opts s"
  by (auto simp: until_failure_iteration_def split: prod.splits sum.splits)

lemma adhoc_iteration_overrides:
  "adhoc_run_tests C command p opts s = (Inr result, s1) \<Longrightarrow>
   latest_run_successful C (world s1) = Inr False \<Longrightarrow>
   adhoc_iteration C command p opts s = (Inr 1, s1)"
  by (simp add: adhoc_iteration_def subunit_module_def)

subsection \<open>Isolated mode\<close>

lemma until_failure_loop_calls:
  assumes "until_failure_loop C cmd opts s = Some y"
  shows "\<exists>evs. calls (snd y) = calls s @ evs \<and> (\<forall>ev \<in> set evs. is_body ev)"
proof (rule until_failure_loop.raw_induct [OF _ assms])
  fix loop :: "'a collaborators \<Rightarrow> cmd \<Rightarrow> run_opts \<Rightarrow> 'a state \<Rightarrow> ((error + int) \<times> 'a state) option"
    and C cmd opts s y
  assume IH: "\<And>C cmd opts s y. loop C cmd opts s = Some y \<Longrightarrow>
      \<exists>evs. calls (snd y) = calls s @ evs \<and> (\<forall>ev \<in> set evs. is_body ev)"
    and step: "(case until_failure_iteration C cmd opts s of
        (Inl e, s1) \<Rightarrow> Some (Inl e, s1)
      | (Inr result, s1) \<Rightarrow>
          if result \<noteq> 0 then Some (Inr result, s1) else loop C cmd opts s1) = Some y"
  obtain out s1 where it: "until_failure_iteration C cmd opts s = (out, s1)"
    by (cases "until_failure_iteration C cmd opts s")
  then have "s1 = snd (run_tests_inner C cmd opts s)"
    using snd_until_failure_iteration [of C cmd opts s] by simp
  then obtain e1 where e1: "calls s1 = calls s @ e1" "\<forall>ev \<in> set e1. is_body ev"
    using run_tests_inner_calls [of C cmd opts s] by auto
  show "\<exists>evs. calls (snd y) = calls s @ evs \<and> (\<forall>ev \<in> set evs. is_body ev)"
  proof (cases "out = Inr 0")
    case False
    with step it have "y = (out, s1)" by (cases out) auto
    with e1 show ?thesis by auto
  next
    case True
    with step it have "loop C cmd opts s1 = Some y" by simp
    then obtain e2 where "calls (snd y) = calls s1 @ e2" "\<forall>ev \<in> set e2. is_body ev"
      using IH by blast
    with e1 show ?thesis by (intro exI [of _ "e1 @ e2"]) auto
  qed
qed

lemma codes_simps [simp]:
  "codes [] = []" "codes (Inr c # outs) = c # codes outs" "codes (Inl e # outs) = codes outs"
  by (simp_all add: codes_def)

lemma raised_simps [simp]:
  "raised [] = []" "raised (Inr c # outs) = raised outs" "raised (Inl e # outs) = e # raised outs"
  by (simp_all add: raised_def)

lemma isolated_loop_None:
  "per_test_runs C opts ids s = None \<Longrightarrow> isolated_loop C opts ids result s = None"
  by (induction ids arbitrary: s result) (auto split: option.splits sum.splits prod.splits)

lemma isolated_loop_conv:
  "per_test_runs C opts ids s = Some (outs, s') \<Longrightarrow>
   isolated_loop C opts ids result s =
     Some (if raised outs = [] then Inr (Max (set (result # codes outs)))
           else Inl (hd (raised outs)), s')"
proof (induction ids arbitrary: s outs result)
  case Nil
  then show ?case by simp
next
  case (Cons t ids)
  from Cons.prems obtain r s1 where rt: "run_tests C (Some [t]) opts s = Some (r, s1)"
    by (auto split: option.splits)
  show ?case
  proof (cases r)
    case (Inl e)
    with Cons.prems rt have "outs = [Inl e]" "s' = s1" by auto
    with rt Inl show ?thesis by simp
  next
    case (Inr c)
    with Cons.prems rt obtain rs where rs: "per_test_runs C opts ids s1 = Some (rs, s')"
        "outs = Inr c # rs"
      by auto
    have mx: "Max (set ((if c > result then c else result) # codes rs)) =
        Max (set (result # c # codes rs))"
      by (cases "codes rs = []") (auto simp: max_def)
    have "isolated_loop C opts (t # ids) result s =
        isolated_loop C opts ids (if c > result then c else result) s1"
      using rt Inr by simp
    also have "\<dots> = Some (if raised rs = []
          then Inr (Max (set ((if c > result then c else result) # codes rs)))
          else Inl (hd (raised rs)), s')"
      by (rule Cons.IH [OF rs(1)])
    finally show ?thesis
      by (simp only: mx rs(2) codes_simps raised_simps)
  qed
qed

lemma run_tests_calls:
  assumes "run_tests C cmd opts s = Some (r, s')"
  shows "\<exists>mid. calls s' =
            calls s @ SetUp cmd #
              (if fst (cmd_setUp C cmd (world s)) = Inr () then mid @ [CleanUp cmd] else []) \<and>
          (\<forall>ev \<in> set mid. is_body ev)"
proof (cases "fst (cmd_setUp C cmd (world s))")
  case (Inl e)
  with assms have "s' = after_setUp C cmd s"
    by (simp add: run_tests_raises_in_setUp)
  then show ?thesis
    using Inl by (intro exI [of _ "[]"]) (simp add: calls_after_setUp)
next
  case (Inr u)
  let ?s0 = "after_setUp C cmd s"
  let ?body = "if \<not> until_failure opts then Some (run_tests_inner C cmd opts ?s0)
               else until_failure_loop C cmd opts ?s0"
  from assms Inr obtain r1 s1 where b: "?body = Some (r1, s1)"
    and s': "s' = snd (finally_cleanUp C cmd (r1, s1))"
    by (auto simp: run_tests_after_setUp [OF Inr])
  have "\<exists>evs. calls s1 = calls ?s0 @ evs \<and> (\<forall>ev \<in> set evs. is_body ev)"
  proof (cases "until_failure opts")
    case False
    with b have "s1 = snd (run_tests_inner C cmd opts ?s0)" by simp
    then show ?thesis using run_tests_inner_calls [of C cmd opts ?s0] by auto
  next
    case True
    with b have "until_failure_loop C cmd opts ?s0 = Some (r1, s1)" by simp
    from until_failure_loop_calls [OF this] show ?thesis by simp
  qed
  then obtain evs where "calls s1 = calls ?s0 @ evs" "\<forall>ev \<in> set evs. is_body ev" by blast
  then show ?thesis
    using s' Inr by (intro exI [of _ evs]) (simp add: calls_after_setUp calls_finally_cleanUp)
qed

lemma run_tests_new_calls:
  assumes "run_tests C cmd opts s = Some (r, s')"
  shows "\<exists>evs. calls s' = calls s @ evs \<and>
               filter is_cleanUp evs =
                 (if fst (cmd_setUp C cmd (world s)) = Inr () then [CleanUp cmd] else []) \<and>
               filter is_list evs = []"
proof -
  obtain mid where m: "calls s' =
        calls s @ SetUp cmd #
          (if fst (cmd_setUp C cmd (world s)) = Inr () then mid @ [CleanUp cmd] else [])"
      "\<forall>ev \<in> set mid. is_body ev"
    using run_tests_calls [OF assms] by blast
  have "filter is_list mid = []"
    using m(2) by (induction mid) (auto simp: is_body_def is_list_def split: event.splits)
  then have "filter is_cleanUp
        (SetUp cmd # (if fst (cmd_setUp C cmd (world s)) = Inr () then mid @ [CleanUp cmd] else [])) =
      (if fst (cmd_setUp C cmd (world s)) = Inr () then [CleanUp cmd] else []) \<and>
      filter is_list
        (SetUp cmd # (if fst (cmd_setUp C cmd (world s)) = Inr () then mid @ [CleanUp cmd] else [])) = []"
    using filter_body_cleanUp [OF m(2)] by (simp add: is_cleanUp_def is_list_def)
  with m(1) show ?thesis by blast
qed

lemma run_tests_returned:
  assumes "run_tests C cmd opts s = Some (Inr c, s')"
  shows "fst (cmd_setUp C cmd (world s)) = Inr ()"
proof (cases "fst (cmd_setUp C cmd (world s))")
  case (Inl e)
  with assms show ?thesis by (simp add: run_tests_raises_in_setUp)
next
  case (Inr u)
  then show ?thesis by simp
qed

lemma run_tests_total: "\<not> until_failure opts \<Longrightarrow> run_tests C cmd opts s \<noteq> None"
  by (simp add: run_tests_def split: prod.splits sum.splits)

lemma per_test_runs_total:
  "\<not> until_failure opts \<Longrightarrow> per_test_runs C opts ids s \<noteq> None"
proof (induction ids arbitrary: s)
  case Nil
  then show ?case by simp
next
  case (Cons t ids)
  from run_tests_total [OF Cons.prems] obtain r s1
    where "run_tests C (Some [t]) opts s = Some (r, s1)" by fastforce
  then show ?case
    using Cons.IH [OF Cons.prems, of s1] by (cases r) auto
qed

lemma per_test_runs_calls:
  "per_test_runs C opts ids s = Some (outs, s') \<Longrightarrow>
   \<exists>evs. calls s' = calls s @ evs \<and>
         (length (filter is_cleanUp evs) = length (codes outs) \<or>
          length (filter is_cleanUp evs) = length outs) \<and>
         filter is_list evs = []"
proof (induction ids arbitrary: s outs)
  case Nil
  then show ?case by simp
next
  case (Cons t ids)
  from Cons.prems obtain r s1 where rt: "run_tests C (Some [t]) opts s = Some (r, s1)"
    by (auto split: option.splits)
  obtain e1 where e1: "calls s1 = calls s @ e1"
      "filter is_cleanUp e1 =
         (if fst (cmd_setUp C (Some [t]) (world s)) = Inr () then [CleanUp (Some [t])] else [])"
      "filter is_list e1 = []"
    using run_tests_new_calls [OF rt] by blast
  show ?case
  proof (cases r)
    case (Inl e)
    with Cons.prems rt have "outs = [Inl e]" "s' = s1" by auto
    with e1 show ?thesis by (intro exI [of _ e1]) simp
  next
    case (Inr c)
    with Cons.prems rt obtain rs where rs: "per_test_runs C opts ids s1 = Some (rs, s')"
        "outs = Inr c # rs"
      by auto
    from rt Inr have "fst (cmd_setUp C (Some [t]) (world s)) = Inr ()"
      by (simp add: run_tests_returned)
    with e1(2) have one: "filter is_cleanUp e1 = [CleanUp (Some [t])]" by simp
    from Cons.IH [OF rs(1)] obtain e2 where e2: "calls s' = calls s1 @ e2"
        "length (filter is_cleanUp e2) = length (codes rs) \<or>
         length (filter is_cleanUp e2) = length rs" "filter is_list e2 = []"
      by blast
    show ?thesis
      by (rule exI [of _ "e1 @ e2"]) (use e1(1,3) one e2 rs(2) in auto)
  qed
qed

lemma calls_discovery:
  assumes "discovery C cmd s = (Inr ids, s1)"
  shows "calls s1 = calls s @ [SetUp cmd, ListTests cmd, CleanUp cmd]"
proof (cases "fst (cmd_setUp C cmd (world s))")
  case (Inl e)
  with assms show ?thesis by (simp add: discovery_def setUp_call_eq)
next
  case (Inr u)
  obtain r w1 where l: "cmd_list_tests C cmd (world (after_setUp C cmd s)) = (r, w1)"
    by (cases "cmd_list_tests C cmd (world (after_setUp C cmd s))")
  from assms Inr l have
    "s1 = snd (finally_cleanUp C cmd (r, record_call [ListTests cmd] w1 (after_setUp C cmd s)))"
    by (simp add: discovery_def setUp_call_eq)
  then show ?thesis
    by (simp add: calls_finally_cleanUp calls_after_setUp)
qed

lemmas exec_eval_simps =
  run_tests_def run_tests_inner_def after_setUp_def setUp_call_def finally_cleanUp_def
  discovery_def record_call_def start_def Let_def

text \<open>
  C7 as it is worded, \<^verbatim>\<open>cleanUp\<close> once for each per-test run whatever the
  outcome: \<^verbatim>\<open>cmd.setUp()\<close> stands before the \<^verbatim>\<open>try\<close> (lines 458-459), so a
  per-test run whose \<^verbatim>\<open>setUp\<close> raises ends with the error propagated and
  without a call of \<^verbatim>\<open>cleanUp\<close>. With discovery returning A, B and C and the
  \<^verbatim>\<open>setUp\<close> of B raising, the run of B makes the one call \<^verbatim>\<open>setUp\<close>, and the
  mode raises after the \<^verbatim>\<open>cleanUp\<close> of the discovery pass and that of A: two
  per-test runs have ended, one has called \<^verbatim>\<open>cleanUp\<close>.
\<close>

theorem isolated_cleanUp_counterexample:
  "run_tests raising_setUp (Some [''B'']) isolated_opts (start ()) =
     Some (Inl (Raised ''OSError''), \<lparr> world = (), calls = [SetUp (Some [''B''])] \<rparr>) \<and>
   filter is_cleanUp
     (new_calls (start ()) \<lparr> world = (), calls = [SetUp (Some [''B''])] \<rparr>) = [] \<and>
   (\<exists>s1 s'. discovery raising_setUp None (start ()) = (Inr [''A'', ''B'', ''C''], s1) \<and>
      per_test_runs raising_setUp isolated_opts [''A'', ''B'', ''C''] s1 =
        Some ([Inr 0, Inl (Raised ''OSError'')], s') \<and>
      isolated_run raising_setUp None isolated_opts (start ()) =
        Some (Inl (Raised ''OSError''), s') \<and>
      filter is_cleanUp (new_calls (start ()) s') = [CleanUp None, CleanUp (Some [''A''])] \<and>
      filter is_cleanUp (new_calls s1 s') = [CleanUp (Some [''A''])])"
  by (simp add: exec_eval_simps isolated_run_def new_calls_def
      raising_setUp_def isolated_opts_def)

text \<open>
  C7 with \<^verbatim>\<open>cleanUp\<close> for the runs whose \<^verbatim>\<open>setUp\<close> returned: isolated mode, when
  the one discovery pass returns \<open>ids\<close>. The per-test runs are \<^verbatim>\<open>_run_tests\<close> on
  a command for each id alone, in order. They all end when \<^verbatim>\<open>until_failure\<close>
  is not set. When they have the outcomes \<open>outs\<close>, the mode returns the
  greatest exit code among them, and 0 when none is greater (a raise is
  propagated and ends the mode); the calls made hold one \<^verbatim>\<open>list_tests\<close>.
  Every run of \<^verbatim>\<open>_run_tests\<close> that ends, by a return or by a raise, has called
  \<^verbatim>\<open>cleanUp\<close> exactly once when its \<^verbatim>\<open>setUp\<close> returned, whatever the body did
  then, and not at all when its \<^verbatim>\<open>setUp\<close> raised. So the calls of the mode
  hold one \<^verbatim>\<open>cleanUp\<close> for the discovery pass and one for each per-test run,
  the last run left out when it raised in \<^verbatim>\<open>setUp\<close>.
\<close>

theorem isolated_mode:
  assumes "discovery C cmd s = (Inr ids, s1)"
  shows "(\<not> until_failure opts \<longrightarrow> per_test_runs C opts ids s1 \<noteq> None) \<and>
         (per_test_runs C opts ids s1 = None \<longrightarrow> isolated_run C cmd opts s = None) \<and>
         (\<forall>outs s'.
            per_test_runs C opts ids s1 = Some (outs, s') \<longrightarrow>
            isolated_run C cmd opts s =
              Some (if raised outs = [] then Inr (Max (set (0 # codes outs)))
                    else Inl (hd (raised outs)), s') \<and>
            length (filter is_list (new_calls s s')) = 1 \<and>
            (length (filter is_cleanUp (new_calls s s')) = 1 + length (codes outs) \<or>
             length (filter is_cleanUp (new_calls s s')) = 1 + length outs)) \<and>
         (\<forall>t sa r sb. run_tests C (Some [t]) opts sa = Some (r, sb) \<longrightarrow>
            filter is_cleanUp (new_calls sa sb) =
              (if fst (cmd_setUp C (Some [t]) (world sa)) = Inr () then [CleanUp (Some [t])]
               else []))"
proof (intro conjI allI impI)
  have run: "isolated_run C cmd opts s = isolated_loop C opts ids 0 s1"
    using assms by (simp add: isolated_run_def)
  have disc: "calls s1 = calls s @ [SetUp cmd, ListTests cmd, CleanUp cmd]"
    using assms by (rule calls_discovery)
  show "per_test_runs C opts ids s1 \<noteq> None" if "\<not> until_failure opts"
    using that by (rule per_test_runs_total)
  show "isolated_run C cmd opts s = None" if "per_test_runs C opts ids s1 = None"
    using that by (simp add: run isolated_loop_None)
  show "filter is_cleanUp (new_calls sa sb) =
      (if fst (cmd_setUp C (Some [t]) (world sa)) = Inr () then [CleanUp (Some [t])] else [])"
    if h: "run_tests C (Some [t]) opts sa = Some (r, sb)" for t sa r sb
  proof -
    obtain evs where "calls sb = calls sa @ evs"
        "filter is_cleanUp evs =
           (if fst (cmd_setUp C (Some [t]) (world sa)) = Inr () then [CleanUp (Some [t])] else [])"
      using run_tests_new_calls [OF h] by blast
    then show ?thesis by (simp add: new_calls_append)
  qed
  fix outs s'
  assume p: "per_test_runs C opts ids s1 = Some (outs, s')"
  show "isolated_run C cmd opts s =
      Some (if raised outs = [] then Inr (Max (set (0 # codes outs)))
            else Inl (hd (raised outs)), s')"
    by (simp only: run isolated_loop_conv [OF p])
  obtain evs where evs: "calls s' = calls s1 @ evs"
      "length (filter is_cleanUp evs) = length (codes outs) \<or>
       length (filter is_cleanUp evs) = length outs" "filter is_list evs = []"
    using per_test_runs_calls [OF p] by blast
  have nc: "new_calls s s' = [SetUp cmd, ListTests cmd, CleanUp cmd] @ evs"
    by (rule new_calls_append) (simp add: evs(1) disc)
  show "length (filter is_list (new_calls s s')) = 1"
    by (simp add: nc evs(3) is_list_def)
  show "length (filter is_cleanUp (new_calls s s')) = 1 + length (codes outs) \<or>
        length (filter is_cleanUp (new_calls s s')) = 1 + length outs"
    using evs(2) by (simp add: nc is_cleanUp_def)
qed

lemmas isolated_eval_simps =
  exec_eval_simps three_tests_def isolated_opts_def

text \<open>
  Discovery returns A, B and C, whose runs return 0, 2 and 0: the mode returns
  2 after four calls of \<^verbatim>\<open>cleanUp\<close>. When the run of B raises after its
  \<^verbatim>\<open>setUp\<close>, the mode raises after three: the run of B has called \<^verbatim>\<open>cleanUp\<close>,
  and C is not run.
\<close>

theorem isolated_mode_witness:
  "(\<exists>s1 s'. discovery three_tests None (start ()) = (Inr [''A'', ''B'', ''C''], s1) \<and>
         per_test_runs three_tests isolated_opts [''A'', ''B'', ''C''] s1 =
           Some ([Inr 0, Inr 2, Inr 0], s') \<and>
         isolated_run three_tests None isolated_opts (start ()) = Some (Inr 2, s') \<and>
         length (filter is_list (new_calls (start ()) s')) = 1 \<and>
         length (filter is_cleanUp (new_calls (start ()) s')) = 4) \<and>
   (\<exists>s1 s'. discovery raising_test None (start ()) = (Inr [''A'', ''B'', ''C''], s1) \<and>
         per_test_runs raising_test isolated_opts [''A'', ''B'', ''C''] s1 =
           Some ([Inr 0, Inl (Raised ''OSError'')], s') \<and>
         isolated_run raising_test None isolated_opts (start ()) =
           Some (Inl (Raised ''OSError''), s') \<and>
         length (filter is_cleanUp (new_calls (start ()) s')) = 3) \<and>
   (\<exists>s'. run_tests raising_test (Some [''B'']) isolated_opts (start ()) =
           Some (Inl (Raised ''OSError''), s') \<and>
         fst (cmd_setUp raising_test (Some [''B'']) (world (start ()))) = Inr () \<and>
         filter is_cleanUp (new_calls (start ()) s') = [CleanUp (Some [''B''])])"
proof -
  let ?d2 = "snd (discovery raising_test None (start ()))"
  have d2: "discovery raising_test None (start ()) = (Inr [''A'', ''B'', ''C''], ?d2)"
    by (simp add: exec_eval_simps raising_test_def)
  have "\<exists>s'. per_test_runs raising_test isolated_opts [''A'', ''B'', ''C''] ?d2 =
             Some ([Inr 0, Inl (Raised ''OSError'')], s')"
    by (simp add: exec_eval_simps raising_test_def isolated_opts_def)
  then obtain s2 where p2: "per_test_runs raising_test isolated_opts [''A'', ''B'', ''C''] ?d2 =
             Some ([Inr 0, Inl (Raised ''OSError'')], s2)"
    by blast
  have c2: "length (filter is_cleanUp (new_calls (start ()) s2)) = 3"
    using p2 by (simp add: exec_eval_simps raising_test_def isolated_opts_def)
      (auto simp: new_calls_def)
  have second: "\<exists>s1 s'. discovery raising_test None (start ()) = (Inr [''A'', ''B'', ''C''], s1) \<and>
         per_test_runs raising_test isolated_opts [''A'', ''B'', ''C''] s1 =
           Some ([Inr 0, Inl (Raised ''OSError'')], s') \<and>
         isolated_run raising_test None isolated_opts (start ()) =
           Some (Inl (Raised ''OSError''), s') \<and>
         length (filter is_cleanUp (new_calls (start ()) s')) = 3"
    using isolated_mode [OF d2, of isolated_opts] p2 d2 c2
    by (intro exI [of _ ?d2] exI [of _ s2]) simp
  let ?d = "snd (discovery three_tests None (start ()))"
  have d: "discovery three_tests None (start ()) = (Inr [''A'', ''B'', ''C''], ?d)"
    by (simp add: isolated_eval_simps)
  have "\<exists>s'. per_test_runs three_tests isolated_opts [''A'', ''B'', ''C''] ?d =
             Some ([Inr 0, Inr 2, Inr 0], s')"
    by (simp add: isolated_eval_simps)
  then obtain s' where p: "per_test_runs three_tests isolated_opts [''A'', ''B'', ''C''] ?d =
             Some ([Inr 0, Inr 2, Inr 0], s')"
    by blast
  have first: "\<exists>s1 s'. discovery three_tests None (start ()) = (Inr [''A'', ''B'', ''C''], s1) \<and>
         per_test_runs three_tests isolated_opts [''A'', ''B'', ''C''] s1 =
           Some ([Inr 0, Inr 2, Inr 0], s') \<and>
         isolated_run three_tests None isolated_opts (start ()) = Some (Inr 2, s') \<and>
         length (filter is_list (new_calls (start ()) s')) = 1 \<and>
         length (filter is_cleanUp (new_calls (start ()) s')) = 4"
    using isolated_mode [OF d, of isolated_opts] p d
    by (intro exI [of _ ?d] exI [of _ s']) simp
  have "\<exists>s'. run_tests raising_test (Some [''B'']) isolated_opts (start ()) =
           Some (Inl (Raised ''OSError''), s')"
    by (simp add: exec_eval_simps raising_test_def isolated_opts_def)
  then obtain s3 where r3: "run_tests raising_test (Some [''B'']) isolated_opts (start ()) =
           Some (Inl (Raised ''OSError''), s3)"
    by blast
  have su: "fst (cmd_setUp raising_test (Some [''B'']) (world (start ()))) = Inr ()"
    by (simp add: raising_test_def)
  have third: "\<exists>s'. run_tests raising_test (Some [''B'']) isolated_opts (start ()) =
           Some (Inl (Raised ''OSError''), s') \<and>
         fst (cmd_setUp raising_test (Some [''B'']) (world (start ()))) = Inr () \<and>
         filter is_cleanUp (new_calls (start ()) s') = [CleanUp (Some [''B''])]"
    using isolated_mode [OF d2, of isolated_opts] r3 su
    by (intro exI [of _ s3]) simp
  from first second third show ?thesis by (intro conjI)
qed

subsection \<open>The isolation analysis\<close>

lemma call_run_tests_no_flags: "call_run_tests C cmd None s = Some (Inl TypeError, s)"
  by (simp add: call_run_tests_def)

lemma probe_raises:
  "probe C R candidate_causes spurious_failure bt check_width s = Some (Inl TypeError, s)"
  by (simp add: probe_def call_run_tests_no_flags)

lemma bisect_step_raises:
  "bisect_step C R candidate_causes spurious_failure b = Some (Inl (TypeError, reached b))"
  by (simp add: bisect_step_def probe_raises Let_def)

lemma bisect_loop_raises:
  "width b \<noteq> 0 \<Longrightarrow>
   bisect_loop C R candidate_causes spurious_failure b = Some (Inl (TypeError, reached b))"
  by (subst bisect_loop.simps) (simp add: bisect_step_raises)

lemma stage_one_raises:
  "stage_one C R (test_id # rest) spurious_failures s = Some (Inl TypeError, s)"
  by (simp add: call_run_tests_no_flags)

text \<open>
  C1, the search as the code runs it: for a non-empty list of candidate
  causes the loop of lines 354-398 is entered, and its first statement that
  is to run a probe, \<^verbatim>\<open>_run_tests(cmd)\<close> at line 365, raises TypeError. The
  search ends there: no probe has been executed, the state is the one the
  search started in, and the failure has been assigned neither a cause nor
  \<^verbatim>\<open>unknown - no conflicts\<close>.
\<close>

theorem bisect_failure_raises:
  assumes "candidate_causes \<noteq> []"
  shows "bisect_failure C R candidate_causes spurious_failure conflicts s =
           Some (Inl (TypeError, s))"
proof -
  have "width (initial_search candidate_causes conflicts s) \<noteq> 0"
    using assms by (simp add: initial_search_def)
  then have "bisect_loop C R candidate_causes spurious_failure
      (initial_search candidate_causes conflicts s) = Some (Inl (TypeError, s))"
    by (simp add: bisect_loop_raises) (simp add: initial_search_def)
  then show ?thesis
    by (simp add: bisect_failure_def)
qed

text \<open>
  Three candidates and a failure that is in the failing set of the repository
  whenever it is read: the search raises before it runs anything.
\<close>

theorem bisect_failure_raises_witness:
  "[''a'', ''b'', ''c''] \<noteq> ([] :: test_id list) \<and>
   bisect_failure quiet_worker always_reproduces [''a'', ''b'', ''c''] ''t'' [] (start ()) =
     Some (Inl (TypeError, start ())) \<and>
   calls (start ()) = []"
  using bisect_failure_raises [of "[''a'', ''b'', ''c'']" quiet_worker always_reproduces "''t''"
      "[]" "start ()"]
  by (simp add: start_def)

text \<open>
  C4 as the code has it: with no failing ids the analysis returns 0 at once. It runs no
  command and leaves the repository as it was; it raises no error.
\<close>

theorem analyze_no_failing_ids:
  "analyze C R [] s = Some (Inr 0, [], s)"
  by (simp add: analyze_def Let_def)

text \<open>
  C4 with the empty-input error of the specification: on the empty list the
  code raises nothing and returns 0 (line 345, reached because the loop of stage one has nothing to
  add to the set of spurious failures).
\<close>

theorem analyze_empty_counterexample:
  "analyze quiet_worker always_reproduces [] (start ()) = Some (Inr 0, [], start ()) \<and>
   analyze quiet_worker always_reproduces [] (start ()) \<noteq> Some (Inl ValueError, [], start ())"
  by (simp add: analyze_def Let_def)

text \<open>The same on a second repository.\<close>

theorem analyze_no_failing_ids_witness:
  "analyze quiet_worker contaminated [] (start []) = Some (Inr 0, [], start []) \<and>
   calls (start []) = []"
  using analyze_no_failing_ids [of quiet_worker contaminated "start []"] by (simp add: start_def)

text \<open>
  C8, the analysis as the code runs it: with one failing id or more, stage
  one raises TypeError at its first \<^verbatim>\<open>_run_tests(cmd)\<close> (line 329). The
  analysis ends there with the error: it has run nothing, the conflict dict
  has not been created, no table is written and neither 3 nor 0 is returned.
  The loop over the spurious failures would raise as well, at the call of
  \<^verbatim>\<open>_prior_tests\<close> with two arguments (line 349).
\<close>

theorem analyze_raises:
  "(ids \<noteq> [] \<longrightarrow> analyze C R ids s = Some (Inl TypeError, [], s)) \<and>
   stage_two C R latest_run (spurious_failure # rest) conflicts s = Some (Inl (TypeError, s))"
proof (intro conjI impI)
  assume "ids \<noteq> []"
  then obtain test_id rest where "ids = test_id # rest"
    by (cases ids) auto
  then show "analyze C R ids s = Some (Inl TypeError, [], s)"
    by (simp add: analyze_def Let_def stage_one_raises del: stage_one.simps)
next
  show "stage_two C R latest_run (spurious_failure # rest) conflicts s = Some (Inl (TypeError, s))"
    by (simp add: prior_tests_call_def)
qed

text \<open>
  The latest run of a project in which t1 fails after a on the same worker
  and t2 fails for no reason a probe reproduces; the failing set holds t1 and
  t2. The analysis raises; it writes no table.
\<close>

theorem analyze_raises_witness:
  "[''t1'', ''t2''] \<noteq> ([] :: test_id list) \<and>
   analyze quiet_worker contaminated [''t1'', ''t2''] (start [''t1'', ''t2'']) =
     Some (Inl TypeError, [], start [''t1'', ''t2'']) \<and>
   calls (start [''t1'', ''t2'']) = [] \<and>
   stage_two quiet_worker contaminated contaminated_run [''t2'', ''t1''] []
       (start [''t1'', ''t2'']) =
     Some (Inl (TypeError, start [''t1'', ''t2'']))"
  using analyze_raises [of "[''t1'', ''t2'']" quiet_worker contaminated "start [''t1'', ''t2'']"
      contaminated_run "''t2''" "[''t1'']" "[]"]
  by (simp add: start_def)

end
